theory Spec2Isabelle
  imports Main "HOL-Library.Sublist"
begin

section \<open>Python string operations used by the build script\<close>

text \<open>
  Strings are lists of characters. The operations below are the \<^verbatim>\<open>str\<close> methods
  that \<^verbatim>\<open>build.py\<close> calls, written as executable functions:
  \<^verbatim>\<open>s.endswith(t)\<close>, \<^verbatim>\<open>t in s\<close>, \<^verbatim>\<open>s[:-6]\<close> and \<^verbatim>\<open>s.replace(old, new)\<close>.
\<close>

definition endswith :: "string \<Rightarrow> string \<Rightarrow> bool" where
  "endswith s t \<longleftrightarrow> length t \<le> length s \<and> drop (length s - length t) s = t"

fun str_contains :: "string \<Rightarrow> string \<Rightarrow> bool" where
  "str_contains t [] \<longleftrightarrow> t = []"
| "str_contains t (c # cs) \<longleftrightarrow> take (length t) (c # cs) = t \<or> str_contains t cs"

definition drop_last6 :: "string \<Rightarrow> string" where
  "drop_last6 s = take (length s - 6) s"

text \<open>
  \<^verbatim>\<open>s.replace(old, new)\<close> replaces the non-overlapping occurrences of \<^verbatim>\<open>old\<close>
  from left to right. The script only calls it with a non-empty \<^verbatim>\<open>old\<close>; for an
  empty \<^verbatim>\<open>old\<close> the function below returns \<^verbatim>\<open>s\<close> and is not used.
\<close>

function str_replace :: "string \<Rightarrow> string \<Rightarrow> string \<Rightarrow> string" where
  "str_replace old new [] = []"
| "str_replace old new (c # cs) =
     (if old \<noteq> [] \<and> take (length old) (c # cs) = old
      then new @ str_replace old new (drop (length old) (c # cs))
      else c # str_replace old new cs)"
  by pat_completeness auto
termination
  by (relation "measure (\<lambda>(old, new, s). length s)") (auto simp: neq_Nil_conv)

section \<open>Naming and identity (build.py)\<close>

text \<open>
  \<^verbatim>\<open>parse_font_name(style_name_compact, skip_subfamily_list)\<close> returns the tuple
  (family-name suffix, name ID 2, display style name, is_italic).
  The index \<^verbatim>\<open>style_name_compact[0]\<close> is only evaluated when the token ends with
  \<^verbatim>\<open>Italic\<close>, so it never reads an empty string.
\<close>

definition parse_font_name ::
  "string \<Rightarrow> string list \<Rightarrow> string \<times> string \<times> string \<times> bool" where
  "parse_font_name style_name_compact skip_subfamily_list =
     (let is_italic = endswith style_name_compact ''Italic'';
          style_name =
            (if is_italic \<and> style_name_compact ! 0 \<noteq> CHR ''I''
             then drop_last6 style_name_compact @ '' Italic''
             else style_name_compact)
      in if style_name_compact \<in> set skip_subfamily_list
         then ('''', style_name, style_name, is_italic)
         else ('' '' @ str_replace ''Italic'' '''' style_name_compact,
               (if is_italic then ''Italic'' else ''Regular''),
               style_name,
               is_italic))"

definition skip_subfamily_list :: "string list" where
  "skip_subfamily_list = [''Regular'', ''Bold'', ''Italic'', ''BoldItalic'']"

text \<open>
  \<^verbatim>\<open>get_unique_identifier(postscript_name, freeze_config, narrow=False, suffix="")\<close>.
  The policy \<^verbatim>\<open>freeze_config\<close> is a Python dict; its \<^verbatim>\<open>items()\<close> are the
  (tag, status) pairs in insertion order, modelled as an association list.
\<close>

fun suffix_loop :: "string \<Rightarrow> (string \<times> string) list \<Rightarrow> string" where
  "suffix_loop sfx [] = sfx"
| "suffix_loop sfx ((k, v) # rest) =
     suffix_loop
       (if v = ''enable'' then sfx @ ''+'' @ k @ '';''
        else if v = ''disable'' then sfx @ ''-'' @ k @ '';''
        else sfx)
       rest"

definition get_unique_identifier ::
  "string \<Rightarrow> (string \<times> string) list \<Rightarrow> bool \<Rightarrow> string \<Rightarrow> string" where
  "get_unique_identifier postscript_name freeze_config narrow sfx =
     (let suffix1 = (if sfx = '''' then suffix_loop sfx freeze_config else sfx);
          suffix2 = (if str_contains ''CN'' postscript_name \<and> narrow
                     then ''Narrow;'' @ suffix1 else suffix1)
      in ''Version 7.000;SUBF;'' @ postscript_name @ '';2024;FL830;'' @ suffix2)"

text \<open>
  The naming section of \<^verbatim>\<open>build_mono\<close>: the calls
  \<^verbatim>\<open>set_font_name(font, value, name_id)\<close> it makes, in order, as (name ID, value)
  pairs. The two calls for IDs 16 and 17 are made only when the style token is not
  in the skip list.
\<close>

definition build_mono_names ::
  "string \<Rightarrow> string \<Rightarrow> (string \<times> string) list \<Rightarrow> string list \<Rightarrow> string
     \<Rightarrow> (nat \<times> string) list" where
  "build_mono_names family_name family_name_compact feature_freeze skip_list style_compact =
     (case parse_font_name style_compact skip_list of
        (style_with_prefix_space, style_in_2, style, _) \<Rightarrow>
          (let postscript_name = family_name_compact @ ''-'' @ style_compact
           in [(1, family_name @ style_with_prefix_space),
               (2, style_in_2),
               (4, family_name @ '' '' @ style),
               (6, postscript_name),
               (3, get_unique_identifier postscript_name feature_freeze False '''')]
              @ (if style_compact \<notin> set skip_list
                 then [(16, family_name), (17, style)] else [])))"

text \<open>
  The feature-state suffix in the words of the specification: every tag whose
  status is not \<^verbatim>\<open>ignore\<close>, in the declared order, with \<^verbatim>\<open>+\<close> when enabled and
  \<^verbatim>\<open>-\<close> when disabled, each terminated by a semicolon.
\<close>

definition feature_state_suffix :: "(string \<times> string) list \<Rightarrow> string" where
  "feature_state_suffix policy =
     concat (map (\<lambda>(tag, status). (if status = ''enable'' then ''+'' else ''-'') @ tag @ '';'')
                 (filter (\<lambda>(tag, status). status \<noteq> ''ignore'') policy))"

definition policy_values :: "string set" where
  "policy_values = {''ignore'', ''enable'', ''disable''}"

text \<open>What one iteration of the loop in \<^verbatim>\<open>get_unique_identifier\<close> appends.\<close>

definition tag_state :: "string \<times> string \<Rightarrow> string" where
  "tag_state = (\<lambda>(k, v). if v = ''enable'' then ''+'' @ k @ '';''
                         else if v = ''disable'' then ''-'' @ k @ '';'' else '''')"

text \<open>Projections of the tuple returned by \<^verbatim>\<open>parse_font_name\<close>.\<close>

definition family_suffix_of :: "string \<times> string \<times> string \<times> bool \<Rightarrow> string" where
  "family_suffix_of r = fst r"

definition style_in_2_of :: "string \<times> string \<times> string \<times> bool \<Rightarrow> string" where
  "style_in_2_of r = fst (snd r)"

definition style_of :: "string \<times> string \<times> string \<times> bool \<Rightarrow> string" where
  "style_of r = fst (snd (snd r))"

definition is_italic_of :: "string \<times> string \<times> string \<times> bool \<Rightarrow> bool" where
  "is_italic_of r = snd (snd (snd r))"

section \<open>Font table model\<close>

text \<open>
  The tables of a \<^verbatim>\<open>TTFont\<close> that the build script reads and writes.

  \<^item> \<open>FeatureRecord\<close> is \<^verbatim>\<open>font["GSUB"].table.FeatureList.FeatureRecord\<close>: a list of
    (\<^verbatim>\<open>FeatureTag\<close>, \<^verbatim>\<open>Feature.LookupListIndex\<close>) pairs. A \<^verbatim>\<open>Feature\<close> object is
    identified by its position in the list; each owns its index list. Several records
    may carry the same tag.
  \<^item> \<open>Lookup\<close> is \<^verbatim>\<open>font["GSUB"].table.LookupList.Lookup\<close>: each lookup is its list
    of subtables. A single-substitution subtable has a \<^verbatim>\<open>mapping\<close> dict, given as
    its items in order; any other kind of subtable has no such attribute.
  \<^item> \<open>glyphs\<close> is \<^verbatim>\<open>font["glyf"].glyphs\<close>: a dict from glyph name to a \<^verbatim>\<open>Glyph\<close>
    object. Objects are mutable and two names can be bound to the same object, so
    the dict holds references and \<open>glyph_objects\<close> is the store of the objects.
    A glyph is a simple glyph with its points, an empty one (no contours, no
    points), or a composite one: a composite glyph has a negative
    \<open>numberOfContours\<close> and no \<^verbatim>\<open>coordinates\<close> attribute, so its point list is
    never read.
  \<^item> \<open>metrics\<close> is \<^verbatim>\<open>font["hmtx"].metrics\<close>: a dict from glyph name to the immutable
    tuple (advance width, left side bearing).
  \<^item> \<open>glyphOrder\<close> is \<^verbatim>\<open>font.getGlyphOrder()\<close> and \<open>advanceWidthMax\<close> is
    \<^verbatim>\<open>font["hhea"].advanceWidthMax\<close>.
\<close>

record glyph =
  numberOfContours :: int
  coordinates :: "(int \<times> int) list"
  xMin :: int
  yMin :: int
  xMax :: int
  yMax :: int

datatype subtable = SingleSubst "(string \<times> string) list" | OtherSubst

record font =
  FeatureRecord :: "(string \<times> nat list) list"
  Lookup :: "subtable list list"
  glyphs :: "string \<rightharpoonup> nat"
  glyph_objects :: "nat \<Rightarrow> glyph"
  metrics :: "string \<rightharpoonup> int \<times> int"
  glyphOrder :: "string list"
  advanceWidthMax :: int

datatype error = IndexError | AttributeError | KeyError

text \<open>
  How a run of \<^verbatim>\<open>freeze_feature\<close> (or of one of its loops) ends: it runs to its end,
  it prints a message and executes \<^verbatim>\<open>return\<close>, or it raises. The font is mutated in
  place, so the first two carry the font as it is at that moment.
\<close>

datatype outcome = Done font | Returned font string | Raised error

section \<open>Feature freezing (source/py/feature.py)\<close>

text \<open>
  The dict comprehension \<^verbatim>\<open>feature_dict\<close> maps every tag other than \<^verbatim>\<open>calt\<close> to a
  feature object; a later record with the same tag replaces an earlier one. The list
  \<^verbatim>\<open>calt_features\<close> holds every feature object whose tag is \<^verbatim>\<open>calt\<close>.
\<close>

definition feature_dict :: "(string \<times> nat list) list \<Rightarrow> string \<rightharpoonup> nat" where
  "feature_dict feature_record =
     fold (\<lambda>(i, tag, lookups) d. if tag \<noteq> ''calt'' then d(tag \<mapsto> i) else d)
          (enumerate 0 feature_record) Map.empty"

definition calt_features :: "(string \<times> nat list) list \<Rightarrow> nat list" where
  "calt_features feature_record =
     map fst (filter (\<lambda>(i, tag, lookups). tag = ''calt'') (enumerate 0 feature_record))"

text \<open>The test of lines 35 to 40 and the two assignments of lines 41 and 42.\<close>

definition both_exist :: "font \<Rightarrow> string \<Rightarrow> string \<Rightarrow> bool" where
  "both_exist f old_key new_key \<longleftrightarrow>
     old_key \<in> dom (glyphs f) \<and> old_key \<in> dom (metrics f) \<and>
     new_key \<in> dom (glyphs f) \<and> new_key \<in> dom (metrics f)"

definition replace_glyph :: "font \<Rightarrow> string \<Rightarrow> string \<Rightarrow> font" where
  "replace_glyph f old_key new_key =
     f\<lparr>glyphs := (glyphs f)(old_key := glyphs f new_key),
       metrics := (metrics f)(old_key := metrics f new_key)\<rparr>"

text \<open>The loop over \<^verbatim>\<open>lookup.SubTable[0].mapping.items()\<close>.\<close>

fun substitute_mapping :: "font \<Rightarrow> (string \<times> string) list \<Rightarrow> outcome" where
  "substitute_mapping f [] = Done f"
| "substitute_mapping f ((old_key, new_key) # rest) =
     (if both_exist f old_key new_key
      then substitute_mapping (replace_glyph f old_key new_key) rest
      else Returned f (old_key @ '' or '' @ new_key @ '' does not exist''))"

text \<open>
  The loop over \<^verbatim>\<open>target_feature.LookupListIndex\<close>. Indexing the lookup list out of
  range, or a lookup without subtables, raises \<^verbatim>\<open>IndexError\<close>; a first subtable
  without a \<^verbatim>\<open>mapping\<close> raises \<^verbatim>\<open>AttributeError\<close>.
\<close>

fun substitute_lookups :: "font \<Rightarrow> nat list \<Rightarrow> outcome" where
  "substitute_lookups f [] = Done f"
| "substitute_lookups f (index # rest) =
     (if index < length (Lookup f) then
        (case Lookup f ! index of
           [] \<Rightarrow> Raised IndexError
         | SingleSubst mapping # _ \<Rightarrow>
             (case substitute_mapping f mapping of
                Done f' \<Rightarrow> substitute_lookups f' rest
              | Returned f' msg \<Rightarrow> Returned f' msg
              | Raised e \<Rightarrow> Raised e)
         | OtherSubst # _ \<Rightarrow> Raised AttributeError)
      else Raised IndexError)"

text \<open>
  The three ways \<^verbatim>\<open>freeze_feature\<close> changes a feature: line 21 assigns a fresh empty
  list to the target feature; line 27 extends the list of each \<^verbatim>\<open>calt\<close> feature, in
  turn, by the list of the target feature.
\<close>

definition clear_lookups :: "nat \<Rightarrow> (string \<times> nat list) list \<Rightarrow> (string \<times> nat list) list" where
  "clear_lookups i recs = recs[i := (fst (recs ! i), [])]"

definition extend_calt ::
  "nat list \<Rightarrow> nat \<Rightarrow> (string \<times> nat list) list \<Rightarrow> (string \<times> nat list) list" where
  "extend_calt calt i recs =
     fold (\<lambda>c rs. rs[c := (fst (rs ! c), snd (rs ! c) @ snd (rs ! i))]) calt recs"

text \<open>
  One iteration of the loop over \<^verbatim>\<open>config.items()\<close>, with the dict \<open>fd\<close> and the list
  \<open>calt\<close> built before the loop.
\<close>

definition process_entry ::
  "(string \<rightharpoonup> nat) \<Rightarrow> nat list \<Rightarrow> string list \<Rightarrow> font \<Rightarrow> string \<times> string \<Rightarrow> outcome" where
  "process_entry fd calt moving_rules f = (\<lambda>(tag, status).
     case fd tag of
       None \<Rightarrow> Done f
     | Some i \<Rightarrow>
         if status = ''ignore'' then Done f
         else if status = ''disable''
         then Done (f\<lparr>FeatureRecord := clear_lookups i (FeatureRecord f)\<rparr>)
         else if tag \<in> set moving_rules
         then Done (f\<lparr>FeatureRecord := extend_calt calt i (FeatureRecord f)\<rparr>)
         else substitute_lookups f (snd (FeatureRecord f ! i)))"

fun process_config ::
  "(string \<rightharpoonup> nat) \<Rightarrow> nat list \<Rightarrow> string list \<Rightarrow> font \<Rightarrow> (string \<times> string) list \<Rightarrow> outcome" where
  "process_config fd calt moving_rules f [] = Done f"
| "process_config fd calt moving_rules f (entry # rest) =
     (case process_entry fd calt moving_rules f entry of
        Done f' \<Rightarrow> process_config fd calt moving_rules f' rest
      | Returned f' msg \<Rightarrow> Returned f' msg
      | Raised e \<Rightarrow> Raised e)"

definition freeze_feature :: "font \<Rightarrow> string list \<Rightarrow> (string \<times> string) list \<Rightarrow> outcome" where
  "freeze_feature f moving_rules config =
     process_config (feature_dict (FeatureRecord f)) (calt_features (FeatureRecord f))
       moving_rules f config"

text \<open>\<^verbatim>\<open>freeze\<close> of \<^verbatim>\<open>build.py\<close> fixes the moving rules.\<close>

definition freeze :: "font \<Rightarrow> (string \<times> string) list \<Rightarrow> outcome" where
  "freeze f freeze_config = freeze_feature f [''ss03'', ''ss05'', ''ss07''] freeze_config"

section \<open>Width change (build.py)\<close>

text \<open>
  \<^verbatim>\<open>round((target_width - width) / 2)\<close>: the quotient of two integers by true
  division, rounded to the nearest integer with ties going to the even one. For a
  numerator below \<open>2 ^ 53\<close> in absolute value (advance widths are 16-bit) the float
  is exact and the result is the following integer function of the numerator.
\<close>

definition round_half :: "int \<Rightarrow> int" where
  "round_half n =
     (if even n then n div 2 else if even (n div 2) then n div 2 else n div 2 + 1)"

text \<open>
  \<^verbatim>\<open>GlyphCoordinates.translate\<close> adds the offset to every point in place;
  \<^verbatim>\<open>calcIntBounds\<close> returns (xMin, yMin, xMax, yMax) of the points, and four zeros
  when there is no point.
\<close>

definition translate :: "int \<times> int \<Rightarrow> (int \<times> int) list \<Rightarrow> (int \<times> int) list" where
  "translate p coords = map (\<lambda>(x, y). (x + fst p, y + snd p)) coords"

fun calcIntBounds :: "(int \<times> int) list \<Rightarrow> int \<times> int \<times> int \<times> int" where
  "calcIntBounds [] = (0, 0, 0, 0)"
| "calcIntBounds ((x, y) # ps) =
     (fold min (map fst ps) x, fold min (map snd ps) y,
      fold max (map fst ps) x, fold max (map snd ps) y)"

definition shift_glyph :: "int \<Rightarrow> glyph \<Rightarrow> glyph" where
  "shift_glyph delta g =
     (let coords = translate (delta, 0) (coordinates g)
      in case calcIntBounds coords of
           (x0, y0, x1, y1) \<Rightarrow>
             g\<lparr>coordinates := coords, xMin := x0, yMin := y0, xMax := x1, yMax := y1\<rparr>)"

text \<open>
  The loop of \<^verbatim>\<open>change_char_width\<close> over the glyph order. \<^verbatim>\<open>font["glyf"][name]\<close> and
  \<^verbatim>\<open>font["hmtx"][name]\<close> raise \<^verbatim>\<open>KeyError\<close> for a name that the table does not
  hold, and \<^verbatim>\<open>glyph.coordinates\<close> raises \<^verbatim>\<open>AttributeError\<close> for a composite glyph
  of the matching width. The glyph is changed through its reference, so the change
  is seen under every name bound to the same object.
\<close>

fun change_width_loop :: "font \<Rightarrow> int \<Rightarrow> int \<Rightarrow> string list \<Rightarrow> error + font" where
  "change_width_loop f match_width target_width [] = Inr f"
| "change_width_loop f match_width target_width (name # rest) =
     (case glyphs f name of
        None \<Rightarrow> Inl KeyError
      | Some a \<Rightarrow>
          (case metrics f name of
             None \<Rightarrow> Inl KeyError
           | Some (width, lsb) \<Rightarrow>
               if width \<noteq> match_width
               then change_width_loop f match_width target_width rest
               else if numberOfContours (glyph_objects f a) = 0
               then change_width_loop
                      (f\<lparr>metrics := (metrics f)(name \<mapsto> (target_width, lsb))\<rparr>)
                      match_width target_width rest
               else if numberOfContours (glyph_objects f a) < 0
               then Inl AttributeError
               else
                 (let delta = round_half (target_width - width)
                  in change_width_loop
                       (f\<lparr>glyph_objects :=
                            (glyph_objects f)(a := shift_glyph delta (glyph_objects f a)),
                          metrics := (metrics f)(name \<mapsto> (target_width, lsb + delta))\<rparr>)
                       match_width target_width rest)))"

definition change_char_width :: "font \<Rightarrow> int \<Rightarrow> int \<Rightarrow> error + font" where
  "change_char_width f match_width target_width =
     change_width_loop (f\<lparr>advanceWidthMax := target_width\<rparr>) match_width target_width
       (glyphOrder f)"

section \<open>Notions used to state the properties\<close>

text \<open>The font that a run leaves behind, when it does not raise.\<close>

fun final_font :: "outcome \<Rightarrow> font option" where
  "final_font (Done f) = Some f"
| "final_font (Returned f msg) = Some f"
| "final_font (Raised e) = None"

text \<open>
  What a policy entry contributes to every \<^verbatim>\<open>calt\<close> feature of a font: the lookup
  indices of its feature when the tag is in the moving rules, names a feature of the
  font and its status is neither ignore nor disable; nothing otherwise.
\<close>

definition moved_lookups :: "font \<Rightarrow> string list \<Rightarrow> string \<times> string \<Rightarrow> nat list" where
  "moved_lookups f moving_rules = (\<lambda>(tag, status).
     case feature_dict (FeatureRecord f) tag of
       None \<Rightarrow> []
     | Some i \<Rightarrow>
         if status = ''ignore'' \<or> status = ''disable'' \<or> tag \<notin> set moving_rules then []
         else snd (FeatureRecord f ! i))"

text \<open>
  The record expected at position \<open>j\<close> of the feature list once the entries of
  \<open>config\<close> have been processed on the font \<open>f\<close>: a \<^verbatim>\<open>calt\<close> record has received
  the moved lookups of every entry, in order; the record that the feature dictionary
  holds for a disabled tag is empty; any other record is as it was.
\<close>

definition expected_record ::
  "font \<Rightarrow> string list \<Rightarrow> (string \<times> string) list \<Rightarrow> nat \<Rightarrow> string \<times> nat list" where
  "expected_record f moving_rules config j =
     (case FeatureRecord f ! j of
        (tag, lookups) \<Rightarrow>
          if tag = ''calt''
          then (tag, lookups @ concat (map (moved_lookups f moving_rules) config))
          else if feature_dict (FeatureRecord f) tag = Some j \<and> (tag, ''disable'') \<in> set config
          then (tag, [])
          else (tag, lookups))"

text \<open>
  Two fonts that differ at most in the values bound to glyph names in the outline
  and metrics dicts: same feature list, lookups, glyph objects, glyph order and
  maximum width, and the same names in both dicts.
\<close>

definition same_but_glyphs :: "font \<Rightarrow> font \<Rightarrow> bool" where
  "same_but_glyphs f f' \<longleftrightarrow>
     FeatureRecord f' = FeatureRecord f \<and> Lookup f' = Lookup f \<and>
     glyph_objects f' = glyph_objects f \<and> glyphOrder f' = glyphOrder f \<and>
     advanceWidthMax f' = advanceWidthMax f \<and>
     dom (glyphs f') = dom (glyphs f) \<and> dom (metrics f') = dom (metrics f)"

text \<open>The font after the substitutions of a list of pairs, applied in order.\<close>

definition substituted :: "font \<Rightarrow> (string \<times> string) list \<Rightarrow> font" where
  "substituted f pairs = foldl (\<lambda>g (old_key, new_key). replace_glyph g old_key new_key) f pairs"

text \<open>
  What every run of \<^verbatim>\<open>freeze_feature\<close> keeps: the tags of the feature list in their
  order, the lookups, the glyph objects, the glyph order, the maximum width and the
  names held by the outline and metrics dicts.
\<close>

definition same_layout :: "font \<Rightarrow> font \<Rightarrow> bool" where
  "same_layout f f' \<longleftrightarrow>
     map fst (FeatureRecord f') = map fst (FeatureRecord f) \<and> Lookup f' = Lookup f \<and>
     glyph_objects f' = glyph_objects f \<and> glyphOrder f' = glyphOrder f \<and>
     advanceWidthMax f' = advanceWidthMax f \<and>
     dom (glyphs f') = dom (glyphs f) \<and> dom (metrics f') = dom (metrics f)"







text \<open>
  What the width change is meant to leave for one glyph that is not composite, given
  the glyph object and the metrics entry it finds: the new metrics entry and the new
  glyph object. A composite glyph of the matching width makes the call raise.
\<close>

definition composite_match :: "int \<Rightarrow> glyph \<Rightarrow> int \<times> int \<Rightarrow> bool" where
  "composite_match match_width g = (\<lambda>(width, lsb). width = match_width \<and> numberOfContours g < 0)"

definition new_metrics :: "int \<Rightarrow> int \<Rightarrow> glyph \<Rightarrow> int \<times> int \<Rightarrow> int \<times> int" where
  "new_metrics match_width target_width g = (\<lambda>(width, lsb).
     if width \<noteq> match_width then (width, lsb)
     else if numberOfContours g = 0 then (target_width, lsb)
     else (target_width, lsb + round_half (target_width - match_width)))"

definition new_glyph :: "int \<Rightarrow> int \<Rightarrow> glyph \<Rightarrow> int \<times> int \<Rightarrow> glyph" where
  "new_glyph match_width target_width g = (\<lambda>(width, lsb).
     if width \<noteq> match_width \<or> numberOfContours g = 0 then g
     else shift_glyph (round_half (target_width - match_width)) g)"

section \<open>Sample fonts\<close>

text \<open>A glyph with one rectangular contour.\<close>

definition box_glyph :: "int \<Rightarrow> int \<Rightarrow> int \<Rightarrow> int \<Rightarrow> glyph" where
  "box_glyph x0 y0 x1 y1 =
     \<lparr>numberOfContours = 1, coordinates = [(x0, y0), (x1, y0), (x1, y1), (x0, y1)],
      xMin = x0, yMin = y0, xMax = x1, yMax = y1\<rparr>"

text \<open>
  A small font with two \<^verbatim>\<open>calt\<close> records, two moving features (ss03, ss05) and two
  direct-substitution features (cv01, zero). The mapping of \<^verbatim>\<open>zero\<close> names the glyph
  \<^verbatim>\<open>O.zero\<close>, which the font does not have.
\<close>

definition sample_font :: font where
  "sample_font =
     \<lparr>FeatureRecord =
        [(''calt'', [0, 1]), (''ss03'', [2, 3]), (''cv01'', [4]),
         (''calt'', [5]), (''ss05'', [6]), (''zero'', [7])],
      Lookup =
        [[OtherSubst], [OtherSubst], [OtherSubst], [OtherSubst],
         [SingleSubst [(''a'', ''a.cv01'')]],
         [OtherSubst], [OtherSubst],
         [SingleSubst [(''zero'', ''zero.zero''), (''O'', ''O.zero'')]]],
      glyphs = [''a'' \<mapsto> 0, ''a.cv01'' \<mapsto> 1, ''zero'' \<mapsto> 2, ''zero.zero'' \<mapsto> 3, ''O'' \<mapsto> 4],
      glyph_objects = (\<lambda>a. box_glyph 50 0 550 700),
      metrics = [''a'' \<mapsto> (600, 50), ''a.cv01'' \<mapsto> (600, 40), ''zero'' \<mapsto> (600, 60),
                 ''zero.zero'' \<mapsto> (600, 55), ''O'' \<mapsto> (600, 45)],
      glyphOrder = [''a'', ''a.cv01'', ''zero'', ''zero.zero'', ''O''],
      advanceWidthMax = 600\<rparr>"




text \<open>
  A font with full-width glyphs: the Latin \<^verbatim>\<open>emdash\<close> (width 600), its full-width
  alternate \<^verbatim>\<open>emdash.cv98\<close> (width 1200), the ideograph \<^verbatim>\<open>uni4E00\<close> (width 1200, left
  side bearing 50) and the contourless ideographic space \<^verbatim>\<open>uni3000\<close> (width 1200).
  The feature cv98 maps \<^verbatim>\<open>emdash\<close> to \<^verbatim>\<open>emdash.cv98\<close>.
\<close>

definition cn_font :: font where
  "cn_font =
     \<lparr>FeatureRecord = [(''cv98'', [0])],
      Lookup = [[SingleSubst [(''emdash'', ''emdash.cv98'')]]],
      glyphs = [''emdash'' \<mapsto> 10, ''emdash.cv98'' \<mapsto> 11, ''uni4E00'' \<mapsto> 12,
                ''uni3000'' \<mapsto> 13],
      glyph_objects = (\<lambda>a.
        if a = 10 then box_glyph 60 300 540 360
        else if a = 11 then box_glyph 50 300 1150 360
        else if a = 12 then box_glyph 50 0 1150 800
        else \<lparr>numberOfContours = 0, coordinates = [], xMin = 0, yMin = 0, xMax = 0, yMax = 0\<rparr>),
      metrics = [''emdash'' \<mapsto> (600, 60), ''emdash.cv98'' \<mapsto> (1200, 50),
                 ''uni4E00'' \<mapsto> (1200, 50), ''uni3000'' \<mapsto> (1200, 0)],
      glyphOrder = [''emdash'', ''emdash.cv98'', ''uni4E00'', ''uni3000''],
      advanceWidthMax = 1200\<rparr>"

text \<open>
  The same font after freeze with cv98 enabled: the name \<^verbatim>\<open>emdash\<close> is bound to the
  glyph object and the metrics of \<^verbatim>\<open>emdash.cv98\<close>.
\<close>

definition cn_font_cv98 :: font where
  "cn_font_cv98 =
     cn_font\<lparr>glyphs := (glyphs cn_font)(''emdash'' \<mapsto> 11),
              metrics := (metrics cn_font)(''emdash'' \<mapsto> (1200, 50))\<rparr>"



section \<open>Properties of the string operations\<close>

lemma endswith_iff_suffix: "endswith s t \<longleftrightarrow> suffix t s"
proof
  assume "endswith s t"
  then have "s = take (length s - length t) s @ t"
    by (metis append_take_drop_id endswith_def)
  then show "suffix t s" by (rule suffixI)
next
  assume "suffix t s"
  then obtain zs where "s = zs @ t" by (auto simp: suffix_def)
  then show "endswith s t" by (simp add: endswith_def)
qed

lemma take_eq_iff_prefix: "take (length t) s = t \<longleftrightarrow> prefix t s"
  by (metis append_eq_conv_conj prefix_def)

lemma str_contains_iff_sublist: "str_contains t s \<longleftrightarrow> sublist t s"
proof (induction s)
  case Nil
  then show ?case by simp
next
  case (Cons c cs)
  show ?case
    using Cons.IH take_eq_iff_prefix [of t "c # cs"]
    by (cases t) (simp_all add: sublist_Cons_right)
qed

lemma drop_last6_append: "drop_last6 (pre @ ''Italic'') = pre"
  by (simp add: drop_last6_def)

text \<open>
  Removing \<^verbatim>\<open>Italic\<close> from a token made of a weight name without a capital I
  followed by \<^verbatim>\<open>Italic\<close> leaves the weight name.
\<close>

lemma str_replace_no_I:
  "CHR ''I'' \<notin> set pre \<Longrightarrow> str_replace ''Italic'' '''' (pre @ ''Italic'') = pre"
  by (induction pre) auto

section \<open>Unique identifier\<close>

lemma suffix_loop_concat: "suffix_loop acc cfg = acc @ concat (map tag_state cfg)"
  by (induction acc cfg rule: suffix_loop.induct) (simp_all add: tag_state_def)

lemma tag_state_spec:
  "\<forall>(tag, status) \<in> set policy. status \<in> policy_values \<Longrightarrow>
     concat (map tag_state policy) = feature_state_suffix policy"
  by (induction policy) (auto simp: tag_state_def feature_state_suffix_def policy_values_def)

text \<open>
  For any status strings, the identifier built with the default \<^verbatim>\<open>suffix=""\<close> is
  the fixed text around the PostScript name followed by what each policy entry
  contributes, in order.
\<close>

lemma get_unique_identifier_entries:
  "get_unique_identifier postscript_name policy narrow '''' =
     ''Version 7.000;SUBF;'' @ postscript_name @ '';2024;FL830;''
     @ (if narrow \<and> sublist ''CN'' postscript_name then ''Narrow;'' else '''')
     @ concat (map tag_state policy)"
  by (simp add: get_unique_identifier_def Let_def suffix_loop_concat str_contains_iff_sublist)

text \<open>
  Claim C3. For every PostScript name and every feature policy (each status one of
  ignore, enable, disable), the unique identifier written to name ID 3 by the static
  builds (default \<^verbatim>\<open>suffix\<close> argument) is \<^verbatim>\<open>Version 7.000;SUBF;\<close>, the PostScript name,
  \<^verbatim>\<open>;2024;FL830;\<close> and the feature-state suffix: every non-ignored tag in declared
  order, with \<^verbatim>\<open>+\<close> if enabled and \<^verbatim>\<open>-\<close> if disabled, each followed by a semicolon.
  The suffix is preceded by \<^verbatim>\<open>Narrow;\<close> exactly when the narrow flag is set and the
  PostScript name contains \<^verbatim>\<open>CN\<close>.
\<close>

theorem get_unique_identifier_format:
  assumes "snd ` set policy \<subseteq> policy_values"
  shows "get_unique_identifier postscript_name policy narrow '''' =
           ''Version 7.000;SUBF;'' @ postscript_name @ '';2024;FL830;''
           @ (if narrow \<and> sublist ''CN'' postscript_name then ''Narrow;'' else '''')
           @ feature_state_suffix policy"
proof -
  from assms have "\<forall>(tag, status) \<in> set policy. status \<in> policy_values"
    by auto
  then show ?thesis
    by (simp add: get_unique_identifier_entries tag_state_spec)
qed

text \<open>
  The example of the specification: \<^verbatim>\<open>MapleMono-Bold\<close> with ss03 enabled, cv01
  disabled and another tag ignored.
\<close>

theorem get_unique_identifier_example:
  "snd ` set [(''ss03'', ''enable''), (''cv01'', ''disable''), (''zero'', ''ignore'')]
     \<subseteq> policy_values
   \<and> get_unique_identifier ''MapleMono-Bold''
        [(''ss03'', ''enable''), (''cv01'', ''disable''), (''zero'', ''ignore'')] False '''' =
      ''Version 7.000;SUBF;MapleMono-Bold;2024;FL830;+ss03;-cv01;''"
  using get_unique_identifier_format
    [of "[(''ss03'', ''enable''), (''cv01'', ''disable''), (''zero'', ''ignore'')]"
        "''MapleMono-Bold''" False]
  by (simp add: policy_values_def feature_state_suffix_def)

section \<open>Style tokens\<close>

lemma parse_font_name_style:
  "style_of (parse_font_name t sk) =
     (if suffix ''Italic'' t \<and> hd t \<noteq> CHR ''I'' then drop_last6 t @ '' Italic'' else t)"
proof (cases "suffix ''Italic'' t")
  case True
  then have "t \<noteq> []" by auto
  then have "t ! 0 = hd t" by (simp add: hd_conv_nth)
  then show ?thesis
    by (simp add: style_of_def parse_font_name_def Let_def endswith_iff_suffix)
next
  case False
  then show ?thesis
    by (simp add: style_of_def parse_font_name_def Let_def endswith_iff_suffix)
qed

text \<open>
  Claim C4, as stated: the parser classifies a token as italic if and only if it
  ends with \<^verbatim>\<open>Italic\<close> and its first character is not \<^verbatim>\<open>I\<close>. It fails for the token
  \<^verbatim>\<open>Italic\<close>: the parser returns the italic flag set, although the first character
  is \<^verbatim>\<open>I\<close>.
\<close>

theorem italic_flag_counterexample:
  "is_italic_of (parse_font_name ''Italic'' skip_subfamily_list)
   \<noteq> (endswith ''Italic'' ''Italic'' \<and> ''Italic'' ! 0 \<noteq> CHR ''I'')"
  by (simp add: is_italic_of_def parse_font_name_def Let_def skip_subfamily_list_def endswith_def)

text \<open>
  Claim C4, amended: for every style token and skip list, the parser classifies the
  token as italic if and only if it ends with \<^verbatim>\<open>Italic\<close>; the first character plays
  no part in the flag (it only decides whether the display name is split).
\<close>

theorem italic_flag_iff_suffix:
  "is_italic_of (parse_font_name t sk) \<longleftrightarrow> (\<exists>pre. t = pre @ ''Italic'')"
  by (auto simp: is_italic_of_def parse_font_name_def Let_def endswith_iff_suffix suffix_def)

text \<open>
  Claim C9, as stated: every italic token other than \<^verbatim>\<open>Italic\<close> is split. It fails
  for \<^verbatim>\<open>InkItalic\<close>: the token is italic and is not \<^verbatim>\<open>Italic\<close>, yet its display name
  is the token itself and not \<^verbatim>\<open>Ink Italic\<close>, because its first character is \<^verbatim>\<open>I\<close>.
\<close>

theorem display_name_counterexample:
  "is_italic_of (parse_font_name ''InkItalic'' skip_subfamily_list)
   \<and> ''InkItalic'' \<noteq> ''Italic''
   \<and> style_of (parse_font_name ''InkItalic'' skip_subfamily_list) = ''InkItalic''
   \<and> style_of (parse_font_name ''InkItalic'' skip_subfamily_list) \<noteq> ''Ink Italic''"
  by (simp add: is_italic_of_def style_of_def parse_font_name_def Let_def
      skip_subfamily_list_def endswith_def)

text \<open>
  Claim C9, amended: for every token that ends with \<^verbatim>\<open>Italic\<close> and whose first
  character is not \<^verbatim>\<open>I\<close>, the display style name is the token with the trailing
  \<^verbatim>\<open>Italic\<close> removed, a single space, and \<^verbatim>\<open>Italic\<close>; for every other token, among
  them \<^verbatim>\<open>Italic\<close> itself and every token that begins with \<^verbatim>\<open>I\<close>, the display style
  name is the token unchanged.
\<close>

theorem display_name_split:
  "(\<forall>pre. t = pre @ ''Italic'' \<and> hd t \<noteq> CHR ''I'' \<longrightarrow>
       style_of (parse_font_name t sk) = pre @ '' Italic'')
   \<and> ((\<nexists>pre. t = pre @ ''Italic'') \<or> hd t = CHR ''I'' \<longrightarrow>
       style_of (parse_font_name t sk) = t)"
  by (auto simp: parse_font_name_style suffix_def drop_last6_append)

theorem display_name_split_witness:
  "''BoldItalic'' = ''Bold'' @ ''Italic'' \<and> hd ''BoldItalic'' \<noteq> CHR ''I''
   \<and> style_of (parse_font_name ''BoldItalic'' skip_subfamily_list) = ''Bold Italic''
   \<and> hd ''Italic'' = CHR ''I''
   \<and> style_of (parse_font_name ''Italic'' skip_subfamily_list) = ''Italic''"
  using display_name_split [of "''BoldItalic''" skip_subfamily_list]
    display_name_split [of "''Italic''" skip_subfamily_list]
  by simp

section \<open>Name records by skip-list membership\<close>

text \<open>
  Claim C5. For every style token in the skip list, the family-name suffix is empty
  (name ID 1 is the family name), name ID 2 is the display style name, and no record
  is written for IDs 16 and 17. For every other token, the family-name suffix is a
  space followed by the token with \<^verbatim>\<open>Italic\<close> removed, name ID 2 is \<^verbatim>\<open>Italic\<close> if the
  token is italic (ends with \<^verbatim>\<open>Italic\<close>) and \<^verbatim>\<open>Regular\<close> otherwise, ID 16 is the bare
  family name and ID 17 the display style name.
\<close>

theorem names_by_skip_list:
  "(t \<in> set sk \<longrightarrow>
      family_suffix_of (parse_font_name t sk) = ''''
      \<and> map_of (build_mono_names fam cmp pol sk t) 1 = Some fam
      \<and> map_of (build_mono_names fam cmp pol sk t) 2 = Some (style_of (parse_font_name t sk))
      \<and> map_of (build_mono_names fam cmp pol sk t) 16 = None
      \<and> map_of (build_mono_names fam cmp pol sk t) 17 = None)
   \<and> (t \<notin> set sk \<longrightarrow>
      family_suffix_of (parse_font_name t sk) = '' '' @ str_replace ''Italic'' '''' t
      \<and> map_of (build_mono_names fam cmp pol sk t) 1
          = Some (fam @ '' '' @ str_replace ''Italic'' '''' t)
      \<and> map_of (build_mono_names fam cmp pol sk t) 2
          = Some (if is_italic_of (parse_font_name t sk) then ''Italic'' else ''Regular'')
      \<and> map_of (build_mono_names fam cmp pol sk t) 16 = Some fam
      \<and> map_of (build_mono_names fam cmp pol sk t) 17 = Some (style_of (parse_font_name t sk)))"
  by (simp add: build_mono_names_def parse_font_name_def Let_def family_suffix_of_def
      style_of_def is_italic_of_def)

theorem names_by_skip_list_witness:
  "''BoldItalic'' \<in> set skip_subfamily_list
   \<and> map_of (build_mono_names ''Maple Mono'' ''MapleMono'' [] skip_subfamily_list ''BoldItalic'') 1
       = Some ''Maple Mono''
   \<and> map_of (build_mono_names ''Maple Mono'' ''MapleMono'' [] skip_subfamily_list ''BoldItalic'') 2
       = Some ''Bold Italic''
   \<and> map_of (build_mono_names ''Maple Mono'' ''MapleMono'' [] skip_subfamily_list ''BoldItalic'') 16
       = None
   \<and> ''SemiBoldItalic'' \<notin> set skip_subfamily_list
   \<and> map_of (build_mono_names ''Maple Mono'' ''MapleMono'' [] skip_subfamily_list ''SemiBoldItalic'') 1
       = Some ''Maple Mono SemiBold''
   \<and> map_of (build_mono_names ''Maple Mono'' ''MapleMono'' [] skip_subfamily_list ''SemiBoldItalic'') 2
       = Some ''Italic''
   \<and> map_of (build_mono_names ''Maple Mono'' ''MapleMono'' [] skip_subfamily_list ''SemiBoldItalic'') 16
       = Some ''Maple Mono''
   \<and> map_of (build_mono_names ''Maple Mono'' ''MapleMono'' [] skip_subfamily_list ''SemiBoldItalic'') 17
       = Some ''SemiBold Italic''"
  using names_by_skip_list
      [of "''BoldItalic''" skip_subfamily_list "''Maple Mono''" "''MapleMono''" "[]"]
    names_by_skip_list
      [of "''SemiBoldItalic''" skip_subfamily_list "''Maple Mono''" "''MapleMono''" "[]"]
  by (simp add: skip_subfamily_list_def style_of_def is_italic_of_def
      parse_font_name_def Let_def endswith_def drop_last6_def)

section \<open>The feature dictionary and the calt list\<close>

lemma feature_dict_snoc:
  "feature_dict (recs @ [r]) =
     (if fst r \<noteq> ''calt'' then (feature_dict recs)(fst r \<mapsto> length recs) else feature_dict recs)"
  by (cases r) (simp add: feature_dict_def enumerate_append_eq)

lemma feature_dict_Nil: "feature_dict [] = Map.empty"
  by (simp add: feature_dict_def)

lemma feature_dict_Some:
  "feature_dict recs tag = Some i \<Longrightarrow> i < length recs \<and> fst (recs ! i) = tag \<and> tag \<noteq> ''calt''"
proof (induction recs rule: rev_induct)
  case Nil
  then show ?case by (simp add: feature_dict_Nil)
next
  case (snoc r recs)
  then show ?case
    by (auto simp: feature_dict_snoc nth_append split: if_splits)
qed

lemma feature_dict_calt: "feature_dict recs ''calt'' = None"
  using feature_dict_Some [of recs "''calt''"] by (cases "feature_dict recs ''calt''") auto


lemma feature_dict_tags:
  "map fst recs' = map fst recs \<Longrightarrow> feature_dict recs' = feature_dict recs"
proof (induction recs arbitrary: recs' rule: rev_induct)
  case Nil
  then show ?case by simp
next
  case (snoc r recs)
  then obtain r' recs0 where r': "recs' = recs0 @ [r']"
    by (metis append_is_Nil_conv map_is_Nil_conv not_Cons_self2 rev_exhaust)
  with snoc.prems have "map fst recs0 = map fst recs" "fst r' = fst r" by auto
  moreover have "length recs0 = length recs"
    using \<open>map fst recs0 = map fst recs\<close> by (rule map_eq_imp_length_eq)
  moreover have "feature_dict recs0 = feature_dict recs"
    using \<open>map fst recs0 = map fst recs\<close> by (rule snoc.IH)
  ultimately show ?case
    unfolding r' feature_dict_snoc by (simp add: fun_upd_def)
qed

lemma calt_features_snoc:
  "calt_features (recs @ [r]) =
     (if fst r = ''calt'' then calt_features recs @ [length recs] else calt_features recs)"
  by (cases r) (simp add: calt_features_def enumerate_append_eq)

lemma in_calt_features:
  "i \<in> set (calt_features recs) \<longleftrightarrow> i < length recs \<and> fst (recs ! i) = ''calt''"
proof (induction recs rule: rev_induct)
  case Nil
  then show ?case by (simp add: calt_features_def)
next
  case (snoc r recs)
  show ?case
  proof (cases "i < length recs")
    case True
    with snoc show ?thesis by (simp add: calt_features_snoc nth_append)
  next
    case False
    with snoc show ?thesis
      by (cases "i = length recs") (simp_all add: calt_features_snoc nth_append)
  qed
qed

lemma distinct_calt_features: "distinct (calt_features recs)"
proof (induction recs rule: rev_induct)
  case Nil
  then show ?case by (simp add: calt_features_def)
next
  case (snoc r recs)
  then show ?case
    by (simp add: calt_features_snoc in_calt_features)
qed

lemma feature_dict_not_calt:
  "feature_dict recs tag = Some i \<Longrightarrow> i \<notin> set (calt_features recs)"
  using feature_dict_Some [of recs tag i] by (simp add: in_calt_features)

section \<open>Changes of the feature list\<close>

lemma extend_calt_length: "length (extend_calt calt i recs) = length recs"
  unfolding extend_calt_def by (induction calt arbitrary: recs) simp_all

lemma extend_calt_Cons:
  "extend_calt (c # calt) i recs =
     extend_calt calt i (recs[c := (fst (recs ! c), snd (recs ! c) @ snd (recs ! i))])"
  by (simp add: extend_calt_def)

lemma extend_calt_nth:
  assumes "distinct calt" "i \<notin> set calt" "\<forall>c \<in> set calt. c < length recs" "j < length recs"
  shows "extend_calt calt i recs ! j =
           (if j \<in> set calt then (fst (recs ! j), snd (recs ! j) @ snd (recs ! i)) else recs ! j)"
  using assms
proof (induction calt arbitrary: recs)
  case Nil
  then show ?case by (simp add: extend_calt_def)
next
  case (Cons c calt)
  define recs1 where "recs1 = recs[c := (fst (recs ! c), snd (recs ! c) @ snd (recs ! i))]"
  have len: "length recs1 = length recs" by (simp add: recs1_def)
  have c: "c < length recs" "c \<noteq> i" "c \<notin> set calt" using Cons.prems by auto
  have at_i: "recs1 ! i = recs ! i" using c by (simp add: recs1_def)
  have at_j: "recs1 ! j = (if j = c then (fst (recs ! c), snd (recs ! c) @ snd (recs ! i)) else recs ! j)"
    using Cons.prems(4) by (simp add: recs1_def nth_list_update)
  have "extend_calt calt i recs1 ! j =
          (if j \<in> set calt then (fst (recs1 ! j), snd (recs1 ! j) @ snd (recs1 ! i)) else recs1 ! j)"
    using Cons.prems len by (intro Cons.IH) simp_all
  then show ?case
    unfolding extend_calt_Cons recs1_def [symmetric] at_i at_j using c by auto
qed

lemma map_fst_update_same: "(map fst recs)[c := fst (recs ! c)] = map fst recs"
proof (cases "c < length recs")
  case True
  then show ?thesis by (metis list_update_id nth_map)
next
  case False
  then show ?thesis by (simp add: list_update_beyond)
qed

lemma extend_calt_tags: "map fst (extend_calt calt i recs) = map fst recs"
  unfolding extend_calt_def
proof (induction calt arbitrary: recs)
  case Nil
  then show ?case by simp
next
  case (Cons c calt)
  have "map fst (recs[c := (fst (recs ! c), snd (recs ! c) @ snd (recs ! i))]) = map fst recs"
    by (simp add: map_update map_fst_update_same)
  with Cons.IH show ?case by simp
qed

lemma clear_lookups_tags: "map fst (clear_lookups i recs) = map fst recs"
  by (simp add: clear_lookups_def map_update map_fst_update_same)



section \<open>What a substitution leaves unchanged\<close>

lemma same_but_glyphs_refl: "same_but_glyphs f f"
  by (simp add: same_but_glyphs_def)

lemma same_but_glyphs_trans:
  "same_but_glyphs f g \<Longrightarrow> same_but_glyphs g h \<Longrightarrow> same_but_glyphs f h"
  by (simp add: same_but_glyphs_def)

lemma both_exist_cong:
  "same_but_glyphs f g \<Longrightarrow> both_exist g old_key new_key = both_exist f old_key new_key"
  by (simp add: same_but_glyphs_def both_exist_def)

lemma dom_copy_entry: "a \<in> dom m \<Longrightarrow> b \<in> dom m \<Longrightarrow> dom (m(a := m b)) = dom m"
  by (auto simp: dom_def)

lemma replace_glyph_same:
  assumes "both_exist f old_key new_key"
  shows "same_but_glyphs f (replace_glyph f old_key new_key)"
proof -
  from assms have "dom ((glyphs f)(old_key := glyphs f new_key)) = dom (glyphs f)"
    by (intro dom_copy_entry) (simp_all add: both_exist_def)
  moreover from assms have "dom ((metrics f)(old_key := metrics f new_key)) = dom (metrics f)"
    by (intro dom_copy_entry) (simp_all add: both_exist_def)
  ultimately show ?thesis
    by (simp add: same_but_glyphs_def replace_glyph_def)
qed

lemma substitute_mapping_same:
  "final_font (substitute_mapping f mapping) = Some f' \<Longrightarrow> same_but_glyphs f f'"
proof (induction f mapping rule: substitute_mapping.induct)
  case (1 f)
  then show ?case by (simp add: same_but_glyphs_refl)
next
  case (2 f old_key new_key rest)
  show ?case
  proof (cases "both_exist f old_key new_key")
    case True
    with 2 have "same_but_glyphs (replace_glyph f old_key new_key) f'" by simp
    with True show ?thesis
      by (blast intro: same_but_glyphs_trans replace_glyph_same)
  next
    case False
    with 2 show ?thesis by (simp add: same_but_glyphs_refl)
  qed
qed

lemma substitute_mapping_not_Raised: "substitute_mapping f mapping \<noteq> Raised e"
  by (induction f mapping rule: substitute_mapping.induct) simp_all

lemma substitute_lookups_same:
  "final_font (substitute_lookups f idxs) = Some f' \<Longrightarrow> same_but_glyphs f f'"
proof (induction idxs arbitrary: f)
  case Nil
  then show ?case by (simp add: same_but_glyphs_refl)
next
  case (Cons index rest)
  from Cons.prems obtain mapping more where
    idx: "index < length (Lookup f)" "Lookup f ! index = SingleSubst mapping # more"
    by (auto split: if_splits list.splits subtable.splits)
  show ?case
  proof (cases "substitute_mapping f mapping")
    case (Done f1)
    with Cons.prems idx have "final_font (substitute_lookups f1 rest) = Some f'" by simp
    then have "same_but_glyphs f1 f'" by (rule Cons.IH)
    moreover from Done have "same_but_glyphs f f1"
      using substitute_mapping_same [of f mapping f1] by simp
    ultimately show ?thesis by (rule same_but_glyphs_trans [rotated])
  next
    case (Returned f1 msg)
    with Cons.prems idx have "f' = f1" by simp
    with Returned show ?thesis
      using substitute_mapping_same [of f mapping f1] by simp
  next
    case (Raised e)
    with Cons.prems idx show ?thesis by simp
  qed
qed

section \<open>One policy entry\<close>

lemma calt_features_tags:
  "map fst recs' = map fst recs \<Longrightarrow> calt_features recs' = calt_features recs"
proof (induction recs arbitrary: recs' rule: rev_induct)
  case Nil
  then show ?case by simp
next
  case (snoc r recs)
  then obtain r' recs0 where r': "recs' = recs0 @ [r']"
    by (metis append_is_Nil_conv map_is_Nil_conv not_Cons_self2 rev_exhaust)
  with snoc.prems have tags: "map fst recs0 = map fst recs" "fst r' = fst r" by auto
  moreover have "length recs0 = length recs"
    using tags(1) by (rule map_eq_imp_length_eq)
  moreover have "calt_features recs0 = calt_features recs"
    using tags(1) by (rule snoc.IH)
  ultimately show ?case
    unfolding r' calt_features_snoc by simp
qed

lemma moved_lookups_absent:
  "feature_dict (FeatureRecord f) tag = None \<Longrightarrow> moved_lookups f mr (tag, status) = []"
  by (simp add: moved_lookups_def)

lemma expected_record_Nil:
  "expected_record f mr [] j = FeatureRecord f ! j"
  by (simp add: expected_record_def split: prod.splits)

text \<open>An entry that changes nothing leaves every record as expected.\<close>

lemma expected_record_unchanged:
  assumes "moved_lookups f mr (tag, status) = []"
    and "status \<noteq> ''disable'' \<or> feature_dict (FeatureRecord f) tag = None"
  shows "expected_record f mr [(tag, status)] j = FeatureRecord f ! j"
  using assms by (auto simp: expected_record_def split: prod.splits)

lemma expected_record_disable:
  assumes "feature_dict (FeatureRecord f) tag = Some i" "j < length (FeatureRecord f)"
  shows "expected_record f mr [(tag, ''disable'')] j = clear_lookups i (FeatureRecord f) ! j"
proof -
  from assms(1) have i: "i < length (FeatureRecord f)" "fst (FeatureRecord f ! i) = tag"
    "tag \<noteq> ''calt''"
    using feature_dict_Some by blast+
  have moved: "moved_lookups f mr (tag, ''disable'') = []"
    by (simp add: moved_lookups_def split: option.splits)
  obtain t ls where tl: "FeatureRecord f ! j = (t, ls)" by (cases "FeatureRecord f ! j")
  show ?thesis
  proof (cases "j = i")
    case True
    with i tl assms show ?thesis
      by (simp add: expected_record_def clear_lookups_def)
  next
    case False
    have "\<not> (feature_dict (FeatureRecord f) t = Some j \<and> t = tag)"
      using assms(1) False by auto
    with False tl moved show ?thesis
      by (auto simp: expected_record_def clear_lookups_def)
  qed
qed

lemma expected_record_moving:
  assumes "feature_dict (FeatureRecord f) tag = Some i" "j < length (FeatureRecord f)"
    and "status \<noteq> ''ignore''" "status \<noteq> ''disable''" "tag \<in> set mr"
  shows "expected_record f mr [(tag, status)] j =
           extend_calt (calt_features (FeatureRecord f)) i (FeatureRecord f) ! j"
proof -
  have moved: "moved_lookups f mr (tag, status) = snd (FeatureRecord f ! i)"
    using assms by (simp add: moved_lookups_def)
  obtain t ls where tl: "FeatureRecord f ! j = (t, ls)" by (cases "FeatureRecord f ! j")
  have "extend_calt (calt_features (FeatureRecord f)) i (FeatureRecord f) ! j =
          (if j \<in> set (calt_features (FeatureRecord f))
           then (fst (FeatureRecord f ! j), snd (FeatureRecord f ! j) @ snd (FeatureRecord f ! i))
           else FeatureRecord f ! j)"
    using assms(1,2)
    by (intro extend_calt_nth distinct_calt_features feature_dict_not_calt)
       (simp_all add: in_calt_features)
  with tl moved assms(2,4) show ?thesis
    by (simp add: expected_record_def in_calt_features)
qed

lemma same_layout_refl: "same_layout f f"
  by (simp add: same_layout_def)

lemma same_layout_trans: "same_layout f g \<Longrightarrow> same_layout g h \<Longrightarrow> same_layout f h"
  by (simp add: same_layout_def)

lemma same_but_glyphs_layout: "same_but_glyphs f f' \<Longrightarrow> same_layout f f'"
  by (simp add: same_layout_def same_but_glyphs_def)

lemma same_layout_dicts:
  assumes "same_layout f f'"
  shows "feature_dict (FeatureRecord f') = feature_dict (FeatureRecord f)"
    and "calt_features (FeatureRecord f') = calt_features (FeatureRecord f)"
    and "length (FeatureRecord f') = length (FeatureRecord f)"
proof -
  from assms have tags: "map fst (FeatureRecord f') = map fst (FeatureRecord f)"
    by (simp add: same_layout_def)
  show "feature_dict (FeatureRecord f') = feature_dict (FeatureRecord f)"
    using tags by (rule feature_dict_tags)
  show "calt_features (FeatureRecord f') = calt_features (FeatureRecord f)"
    using tags by (rule calt_features_tags)
  show "length (FeatureRecord f') = length (FeatureRecord f)"
    using tags by (rule map_eq_imp_length_eq)
qed

text \<open>
  The four ways an entry is processed, with the dictionary and the \<^verbatim>\<open>calt\<close> list of
  the font itself.
\<close>

lemma process_entry_skip:
  "feature_dict (FeatureRecord f) tag = None \<or> status = ''ignore'' \<Longrightarrow>
     process_entry (feature_dict (FeatureRecord f)) calt mr f (tag, status) = Done f"
  by (auto simp: process_entry_def split: option.splits)

lemma process_entry_disable:
  "feature_dict (FeatureRecord f) tag = Some i \<Longrightarrow>
     process_entry (feature_dict (FeatureRecord f)) calt mr f (tag, ''disable'') =
       Done (f\<lparr>FeatureRecord := clear_lookups i (FeatureRecord f)\<rparr>)"
  by (simp add: process_entry_def)

lemma process_entry_moving:
  "feature_dict (FeatureRecord f) tag = Some i \<Longrightarrow> status \<noteq> ''ignore'' \<Longrightarrow>
   status \<noteq> ''disable'' \<Longrightarrow> tag \<in> set mr \<Longrightarrow>
     process_entry (feature_dict (FeatureRecord f)) calt mr f (tag, status) =
       Done (f\<lparr>FeatureRecord := extend_calt calt i (FeatureRecord f)\<rparr>)"
  by (simp add: process_entry_def)

lemma process_entry_direct:
  "feature_dict (FeatureRecord f) tag = Some i \<Longrightarrow> status \<noteq> ''ignore'' \<Longrightarrow>
   status \<noteq> ''disable'' \<Longrightarrow> tag \<notin> set mr \<Longrightarrow>
     process_entry (feature_dict (FeatureRecord f)) calt mr f (tag, status) =
       substitute_lookups f (snd (FeatureRecord f ! i))"
  by (simp add: process_entry_def)

lemma moved_lookups_direct:
  "tag \<notin> set mr \<Longrightarrow> moved_lookups f mr (tag, status) = []"
  by (simp add: moved_lookups_def split: option.splits)

lemma moved_lookups_ignore: "moved_lookups f mr (tag, ''ignore'') = []"
  by (simp add: moved_lookups_def split: option.splits)

lemma process_entry_step:
  assumes "final_font (process_entry (feature_dict (FeatureRecord f))
             (calt_features (FeatureRecord f)) mr f (tag, status)) = Some f'"
  shows "same_layout f f'
         \<and> (\<forall>j < length (FeatureRecord f).
               FeatureRecord f' ! j = expected_record f mr [(tag, status)] j)"
proof (cases "feature_dict (FeatureRecord f) tag = None \<or> status = ''ignore''")
  case True
  with assms have "f' = f" by (simp add: process_entry_skip)
  moreover from True have "moved_lookups f mr (tag, status) = []"
    by (auto simp: moved_lookups_absent moved_lookups_ignore)
  moreover from True have "status \<noteq> ''disable'' \<or> feature_dict (FeatureRecord f) tag = None"
    by auto
  ultimately show ?thesis
    by (simp add: same_layout_refl expected_record_unchanged)
next
  case False
  then obtain i where i: "feature_dict (FeatureRecord f) tag = Some i" and st: "status \<noteq> ''ignore''"
    by auto
  show ?thesis
  proof (cases "status = ''disable''")
    case True
    with assms i have "f' = f\<lparr>FeatureRecord := clear_lookups i (FeatureRecord f)\<rparr>"
      by (simp add: process_entry_disable)
    with i True show ?thesis
      by (simp add: same_layout_def clear_lookups_tags expected_record_disable)
  next
    case not_disable: False
    show ?thesis
    proof (cases "tag \<in> set mr")
      case True
      with assms i st not_disable
      have "f' = f\<lparr>FeatureRecord := extend_calt (calt_features (FeatureRecord f)) i (FeatureRecord f)\<rparr>"
        by (simp add: process_entry_moving)
      with i st not_disable True show ?thesis
        by (simp add: same_layout_def extend_calt_tags expected_record_moving)
    next
      case False
      with assms i st not_disable
      have "final_font (substitute_lookups f (snd (FeatureRecord f ! i))) = Some f'"
        by (simp add: process_entry_direct)
      then have same: "same_but_glyphs f f'" by (rule substitute_lookups_same)
      then have "FeatureRecord f' = FeatureRecord f" by (simp add: same_but_glyphs_def)
      moreover have "moved_lookups f mr (tag, status) = []"
        using False by (rule moved_lookups_direct)
      ultimately show ?thesis
        using same not_disable by (simp add: same_but_glyphs_layout expected_record_unchanged)
    qed
  qed
qed

section \<open>A whole policy\<close>

lemma expected_record_other_tag:
  assumes "feature_dict (FeatureRecord f) tag' = Some i" "tag' \<noteq> tag"
  shows "expected_record f mr [(tag, status)] i = FeatureRecord f ! i"
proof -
  from assms(1) have "fst (FeatureRecord f ! i) = tag'" "tag' \<noteq> ''calt''"
    using feature_dict_Some by blast+
  with assms(2) show ?thesis
    by (auto simp: expected_record_def split: prod.splits)
qed

lemma moved_lookups_step:
  assumes layout: "same_layout f f1"
    and step: "\<forall>j < length (FeatureRecord f).
                 FeatureRecord f1 ! j = expected_record f mr [(tag, status)] j"
    and other: "tag' \<noteq> tag"
  shows "moved_lookups f1 mr (tag', status') = moved_lookups f mr (tag', status')"
proof (cases "feature_dict (FeatureRecord f) tag'")
  case None
  then show ?thesis
    using same_layout_dicts(1) [OF layout] by (simp add: moved_lookups_def)
next
  case (Some i)
  then have "i < length (FeatureRecord f)" using feature_dict_Some by blast
  with step have "FeatureRecord f1 ! i = expected_record f mr [(tag, status)] i" by simp
  also have "\<dots> = FeatureRecord f ! i"
    using Some other by (rule expected_record_other_tag)
  finally show ?thesis
    using Some same_layout_dicts(1) [OF layout] by (simp add: moved_lookups_def)
qed

lemma expected_record_Cons:
  assumes layout: "same_layout f f1"
    and step: "\<forall>j < length (FeatureRecord f).
                 FeatureRecord f1 ! j = expected_record f mr [(tag, status)] j"
    and fresh: "tag \<notin> fst ` set rest"
    and j: "j < length (FeatureRecord f)"
  shows "expected_record f1 mr rest j = expected_record f mr ((tag, status) # rest) j"
proof -
  obtain t ls where tl: "FeatureRecord f ! j = (t, ls)" by (cases "FeatureRecord f ! j")
  have fd: "feature_dict (FeatureRecord f1) = feature_dict (FeatureRecord f)"
    using layout by (rule same_layout_dicts)
  have at_j: "FeatureRecord f1 ! j = expected_record f mr [(tag, status)] j"
    using step j by simp
  have "map (moved_lookups f1 mr) rest = map (moved_lookups f mr) rest"
  proof (rule map_cong [OF refl])
    fix e assume "e \<in> set rest"
    with fresh have "fst e \<noteq> tag" by auto
    then show "moved_lookups f1 mr e = moved_lookups f mr e"
      using moved_lookups_step [OF layout step, of "fst e" "snd e"] by simp
  qed
  then have moved: "concat (map (moved_lookups f1 mr) rest) = concat (map (moved_lookups f mr) rest)"
    by (rule arg_cong)
  show ?thesis
  proof (cases "t = ''calt''")
    case True
    with tl have "FeatureRecord f1 ! j = (t, ls @ moved_lookups f mr (tag, status))"
      unfolding at_j by (simp add: expected_record_def)
    with True tl moved show ?thesis
      by (simp add: expected_record_def)
  next
    case False
    show ?thesis
    proof (cases "feature_dict (FeatureRecord f) t = Some j \<and> t = tag \<and> status = ''disable''")
      case True
      with False tl have "FeatureRecord f1 ! j = (t, [])"
        unfolding at_j by (auto simp: expected_record_def)
      with True False tl fd show ?thesis
        by (auto simp: expected_record_def)
    next
      case no: False
      with False tl have "FeatureRecord f1 ! j = (t, ls)"
        unfolding at_j by (auto simp: expected_record_def)
      with no False tl fd show ?thesis
        by (auto simp: expected_record_def)
    qed
  qed
qed

lemma process_config_records:
  assumes "distinct (map fst cfg)"
    and "final_font (process_config (feature_dict (FeatureRecord f))
           (calt_features (FeatureRecord f)) mr f cfg) = Some f'"
  shows "same_layout f f' \<and>
         (\<exists>n \<le> length cfg.
            (process_config (feature_dict (FeatureRecord f))
               (calt_features (FeatureRecord f)) mr f cfg = Done f' \<longrightarrow> n = length cfg) \<and>
            (\<forall>j < length (FeatureRecord f).
               FeatureRecord f' ! j = expected_record f mr (take n cfg) j))"
  using assms
proof (induction cfg arbitrary: f)
  case Nil
  then have "f' = f" by simp
  then show ?case
    by (simp add: same_layout_refl expected_record_Nil)
next
  case (Cons e rest)
  obtain tag status where e: "e = (tag, status)" by (cases e)
  let ?fd = "feature_dict (FeatureRecord f)"
  let ?calt = "calt_features (FeatureRecord f)"
  from Cons.prems(1) e have fresh: "tag \<notin> fst ` set rest" and dist: "distinct (map fst rest)"
    by auto
  show ?case
  proof (cases "process_entry ?fd ?calt mr f e")
    case (Done f1)
    then have "final_font (process_entry ?fd ?calt mr f (tag, status)) = Some f1"
      by (simp add: e)
    then have step: "same_layout f f1"
      "\<forall>j < length (FeatureRecord f). FeatureRecord f1 ! j = expected_record f mr [(tag, status)] j"
      using process_entry_step by blast+
    note dicts = same_layout_dicts [OF step(1)]
    from Done have run: "process_config ?fd ?calt mr f (e # rest) =
        process_config (feature_dict (FeatureRecord f1)) (calt_features (FeatureRecord f1))
          mr f1 rest"
      by (simp add: dicts)
    with Cons.prems(2) have "final_font (process_config (feature_dict (FeatureRecord f1))
        (calt_features (FeatureRecord f1)) mr f1 rest) = Some f'"
      by simp
    from Cons.IH [OF dist this] obtain n where n: "same_layout f1 f'" "n \<le> length rest"
      "process_config (feature_dict (FeatureRecord f1)) (calt_features (FeatureRecord f1))
         mr f1 rest = Done f' \<longrightarrow> n = length rest"
      "\<forall>j < length (FeatureRecord f1). FeatureRecord f' ! j = expected_record f1 mr (take n rest) j"
      by blast
    have fresh': "tag \<notin> fst ` set (take n rest)"
      using fresh by (meson image_mono in_mono set_take_subset)
    have "\<forall>j < length (FeatureRecord f).
            FeatureRecord f' ! j = expected_record f mr (take (Suc n) (e # rest)) j"
      using n(4) expected_record_Cons [OF step fresh'] dicts(3) by (simp add: e)
    moreover have "same_layout f f'"
      using step(1) n(1) by (rule same_layout_trans)
    ultimately show ?thesis
      using n(2,3) unfolding run by (intro conjI exI [of _ "Suc n"]) simp_all
  next
    case (Returned f1 msg)
    with Cons.prems(2) have f1: "f1 = f'" by simp
    from Returned have "final_font (process_entry ?fd ?calt mr f (tag, status)) = Some f'"
      by (simp add: e f1)
    then have step: "same_layout f f'"
      "\<forall>j < length (FeatureRecord f). FeatureRecord f' ! j = expected_record f mr [(tag, status)] j"
      using process_entry_step by blast+
    from Returned have "process_config ?fd ?calt mr f (e # rest) \<noteq> Done f'" by simp
    with step show ?thesis
      by (intro conjI exI [of _ "Suc 0"]) (simp_all add: e)
  next
    case (Raised x)
    with Cons.prems(2) show ?thesis by simp
  qed
qed

section \<open>The sample font\<close>

lemma sample_feature_dict:
  "feature_dict (FeatureRecord sample_font) =
     [''ss03'' \<mapsto> 1, ''cv01'' \<mapsto> 2, ''ss05'' \<mapsto> 4, ''zero'' \<mapsto> 5]"
  by (simp add: sample_font_def feature_dict_def eval_nat_numeral)

lemma sample_calt_features: "calt_features (FeatureRecord sample_font) = [0, 3]"
  by (simp add: sample_font_def calt_features_def eval_nat_numeral)

lemma sample_records:
  "FeatureRecord sample_font ! 5 = (''zero'', [7])"
  "FeatureRecord sample_font ! 2 = (''cv01'', [4])"
  by (simp_all add: sample_font_def)

lemma sample_lookups:
  "Lookup sample_font ! 7 = [SingleSubst [(''zero'', ''zero.zero''), (''O'', ''O.zero'')]]"
  "Lookup sample_font ! 4 = [SingleSubst [(''a'', ''a.cv01'')]]"
  "length (Lookup sample_font) = 8"
  by (simp_all add: sample_font_def)

lemma sample_glyphs:
  "glyphs sample_font ''zero'' = Some 2" "glyphs sample_font ''zero.zero'' = Some 3"
  "glyphs sample_font ''O'' = Some 4" "glyphs sample_font ''O.zero'' = None"
  "glyphs sample_font ''a'' = Some 0" "glyphs sample_font ''a.cv01'' = Some 1"
  by (simp_all add: sample_font_def)

lemma sample_metrics:
  "metrics sample_font ''zero'' = Some (600, 60)" "metrics sample_font ''zero.zero'' = Some (600, 55)"
  "metrics sample_font ''O'' = Some (600, 45)" "metrics sample_font ''O.zero'' = None"
  "metrics sample_font ''a'' = Some (600, 50)" "metrics sample_font ''a.cv01'' = Some (600, 40)"
  by (simp_all add: sample_font_def)

lemmas sample_eval =
  freeze_def freeze_feature_def sample_feature_dict sample_calt_features process_entry_def
  extend_calt_def clear_lookups_def moved_lookups_def

section \<open>Which record the dictionary holds for a tag\<close>



section \<open>Policies that change nothing\<close>


section \<open>Policy entries for calt\<close>

lemma process_config_drop_calt:
  assumes "fd ''calt'' = None"
  shows "process_config fd calt mr f cfg =
           process_config fd calt mr f (filter (\<lambda>(t, s). t \<noteq> ''calt'') cfg)"
proof (induction cfg arbitrary: f)
  case Nil
  then show ?case by simp
next
  case (Cons e rest)
  obtain t s where e: "e = (t, s)" by (cases e)
  show ?case
  proof (cases "t = ''calt''")
    case True
    with assms have "process_entry fd calt mr f e = Done f"
      by (simp add: e process_entry_def)
    with True Cons.IH show ?thesis by (simp add: e)
  next
    case False
    with Cons.IH show ?thesis
      by (simp add: e split: outcome.splits)
  qed
qed

text \<open>
  Claim C10. For every font, policy and list of moving rules: (1) a policy entry for
  the tag \<^verbatim>\<open>calt\<close>, whatever its status, has no effect, since freeze gives the same
  outcome with the entry removed from the policy; such an entry moves no lookups.
  (2) After any run that does not raise, every \<^verbatim>\<open>calt\<close> record holds its former
  lookup indices followed by the lookups moved for the entries of an initial part of
  the policy, that is, by appends made for enabled moving-tag features only.
\<close>

theorem calt_not_processable:
  "freeze_feature f mr cfg = freeze_feature f mr (filter (\<lambda>(t, s). t \<noteq> ''calt'') cfg)
   \<and> moved_lookups f mr (''calt'', status) = []
   \<and> (distinct (map fst cfg) \<and> final_font (freeze_feature f mr cfg) = Some f'
      \<and> j < length (FeatureRecord f) \<and> fst (FeatureRecord f ! j) = ''calt''
    \<longrightarrow> (\<exists>n \<le> length cfg.
          FeatureRecord f' ! j =
            (''calt'', snd (FeatureRecord f ! j) @ concat (map (moved_lookups f mr) (take n cfg)))))"
proof (intro conjI impI)
  show "freeze_feature f mr cfg = freeze_feature f mr (filter (\<lambda>(t, s). t \<noteq> ''calt'') cfg)"
    unfolding freeze_feature_def
    by (rule process_config_drop_calt) (rule feature_dict_calt)
  show "moved_lookups f mr (''calt'', status) = []"
    by (simp add: moved_lookups_absent feature_dict_calt)
next
  assume a: "distinct (map fst cfg) \<and> final_font (freeze_feature f mr cfg) = Some f'
      \<and> j < length (FeatureRecord f) \<and> fst (FeatureRecord f ! j) = ''calt''"
  then have fin: "final_font (process_config (feature_dict (FeatureRecord f))
      (calt_features (FeatureRecord f)) mr f cfg) = Some f'"
    by (simp add: freeze_feature_def)
  from process_config_records [OF _ fin] a
  obtain n where n: "n \<le> length cfg" "FeatureRecord f' ! j = expected_record f mr (take n cfg) j"
    by blast
  from n(2) a have "FeatureRecord f' ! j =
      (''calt'', snd (FeatureRecord f ! j) @ concat (map (moved_lookups f mr) (take n cfg)))"
    by (simp add: expected_record_def split: prod.splits)
  with n(1) show "\<exists>n \<le> length cfg. FeatureRecord f' ! j =
      (''calt'', snd (FeatureRecord f ! j) @ concat (map (moved_lookups f mr) (take n cfg)))"
    by blast
qed

theorem calt_not_processable_witness:
  "freeze sample_font [(''calt'', ''disable''), (''ss05'', ''enable'')] =
     Done (sample_font\<lparr>FeatureRecord :=
       [(''calt'', [0, 1, 6]), (''ss03'', [2, 3]), (''cv01'', [4]),
        (''calt'', [5, 6]), (''ss05'', [6]), (''zero'', [7])]\<rparr>)
   \<and> freeze sample_font [(''calt'', ''disable''), (''ss05'', ''enable'')] =
       freeze sample_font [(''ss05'', ''enable'')]
   \<and> FeatureRecord sample_font ! 0 = (''calt'', [0, 1])
   \<and> (\<exists>n \<le> 2. [0, 1, 6] =
         [0, 1] @ concat (map (moved_lookups sample_font [''ss03'', ''ss05'', ''ss07''])
                           (take n [(''calt'', ''disable''), (''ss05'', ''enable'')])))"
proof -
  let ?mr = "[''ss03'', ''ss05'', ''ss07'']"
  let ?cfg = "[(''calt'', ''disable''), (''ss05'', ''enable'')]"
  let ?f' = "sample_font\<lparr>FeatureRecord :=
       [(''calt'', [0, 1, 6]), (''ss03'', [2, 3]), (''cv01'', [4]),
        (''calt'', [5, 6]), (''ss05'', [6]), (''zero'', [7])]\<rparr>"
  note inst = calt_not_processable [of sample_font ?mr ?cfg "''disable''" ?f' 0]
  have run: "freeze_feature sample_font ?mr ?cfg = Done ?f'"
    by (simp add: sample_eval) (simp add: sample_font_def)
  have rec: "FeatureRecord sample_font ! 0 = (''calt'', [0, 1])" "0 < length (FeatureRecord sample_font)"
    by (simp_all add: sample_font_def)
  have same: "freeze_feature sample_font ?mr ?cfg = freeze_feature sample_font ?mr [(''ss05'', ''enable'')]"
    using inst [THEN conjunct1] by simp
  have "\<exists>n \<le> length ?cfg. FeatureRecord ?f' ! 0 =
      (''calt'', snd (FeatureRecord sample_font ! 0) @ concat (map (moved_lookups sample_font ?mr) (take n ?cfg)))"
    using run rec by (intro inst [THEN conjunct2, THEN conjunct2, THEN mp]) simp
  then have "\<exists>n \<le> 2. [0, 1, 6] =
         [0, 1] @ concat (map (moved_lookups sample_font ?mr) (take n ?cfg))"
    using rec(1) by (simp add: numeral_2_eq_2)
  with run same rec(1) show ?thesis
    by (simp add: freeze_def)
qed

section \<open>Direct substitution and missing glyphs\<close>

lemma substituted_Cons:
  "substituted f ((old_key, new_key) # rest) = substituted (replace_glyph f old_key new_key) rest"
  by (simp add: substituted_def)

lemma substitute_mapping_all_exist:
  "\<forall>(o_key, n_key) \<in> set pairs. both_exist f o_key n_key \<Longrightarrow>
     substitute_mapping f pairs = Done (substituted f pairs)"
proof (induction f pairs rule: substitute_mapping.induct)
  case (1 f)
  then show ?case by (simp add: substituted_def)
next
  case (2 f old_key new_key rest)
  then have here: "both_exist f old_key new_key" by simp
  then have "same_but_glyphs f (replace_glyph f old_key new_key)"
    by (rule replace_glyph_same)
  then have "\<forall>(o_key, n_key) \<in> set rest. both_exist (replace_glyph f old_key new_key) o_key n_key"
    using "2.prems" by (auto simp: both_exist_cong)
  with here "2.IH" show ?case
    by (simp add: substituted_Cons)
qed

lemma substitute_mapping_append:
  "substitute_mapping f (pre @ rest) =
     (case substitute_mapping f pre of
        Done f1 \<Rightarrow> substitute_mapping f1 rest
      | Returned f1 msg \<Rightarrow> Returned f1 msg
      | Raised e \<Rightarrow> Raised e)"
  by (induction f pre rule: substitute_mapping.induct) simp_all

lemma substitute_mapping_missing:
  assumes "\<forall>(o_key, n_key) \<in> set pre. both_exist f o_key n_key"
    and "\<not> both_exist f old_key new_key"
  shows "substitute_mapping f (pre @ (old_key, new_key) # post) =
           Returned (substituted f pre) (old_key @ '' or '' @ new_key @ '' does not exist'')"
proof -
  have pre: "substitute_mapping f pre = Done (substituted f pre)"
    using assms(1) by (rule substitute_mapping_all_exist)
  then have "same_but_glyphs f (substituted f pre)"
    using substitute_mapping_same [of f pre "substituted f pre"] by simp
  with assms(2) have "\<not> both_exist (substituted f pre) old_key new_key"
    by (simp add: both_exist_cong)
  with pre show ?thesis
    by (simp add: substitute_mapping_append)
qed

lemma substitute_lookups_append:
  "substitute_lookups f (xs @ ys) =
     (case substitute_lookups f xs of
        Done f1 \<Rightarrow> substitute_lookups f1 ys
      | Returned f1 msg \<Rightarrow> Returned f1 msg
      | Raised e \<Rightarrow> Raised e)"
  by (induction xs arbitrary: f) (simp_all split: list.splits subtable.splits outcome.splits)

lemma process_config_append:
  "process_config fd calt mr f (xs @ ys) =
     (case process_config fd calt mr f xs of
        Done f1 \<Rightarrow> process_config fd calt mr f1 ys
      | Returned f1 msg \<Rightarrow> Returned f1 msg
      | Raised e \<Rightarrow> Raised e)"
  by (induction xs arbitrary: f) (simp_all split: outcome.splits)

text \<open>
  The \<^verbatim>\<open>return\<close> of line 45 leaves \<^verbatim>\<open>freeze_feature\<close>: the policy entries that follow
  the feature are not processed.
\<close>

lemma return_skips_later_entries:
  "freeze_feature f mr cfg = Returned f' msg \<Longrightarrow>
     freeze_feature f mr (cfg @ later) = Returned f' msg"
  by (simp add: freeze_feature_def process_config_append)

lemma freeze_feature_same_layout:
  "final_font (freeze_feature f mr cfg) = Some f' \<Longrightarrow> same_layout f f'"
proof (induction cfg arbitrary: f' rule: rev_induct)
  case Nil
  then show ?case by (simp add: freeze_feature_def same_layout_refl)
next
  case (snoc e cfg)
  let ?fd = "feature_dict (FeatureRecord f)"
  let ?calt = "calt_features (FeatureRecord f)"
  obtain tag status where e: "e = (tag, status)" by (cases e)
  show ?case
  proof (cases "process_config ?fd ?calt mr f cfg")
    case (Done f1)
    then have layout: "same_layout f f1"
      by (intro snoc.IH) (simp add: freeze_feature_def)
    note dicts = same_layout_dicts [OF layout]
    from snoc.prems Done
    have "final_font (process_entry (feature_dict (FeatureRecord f1))
        (calt_features (FeatureRecord f1)) mr f1 (tag, status)) = Some f'"
      by (simp add: freeze_feature_def process_config_append dicts e split: outcome.splits)
    then have "same_layout f1 f'" using process_entry_step by blast
    with layout show ?thesis by (rule same_layout_trans)
  next
    case (Returned f1 msg)
    with snoc.prems have "f' = f1"
      by (simp add: freeze_feature_def process_config_append)
    with Returned show ?thesis
      by (intro snoc.IH) (simp add: freeze_feature_def)
  next
    case (Raised x)
    with snoc.prems show ?thesis
      by (simp add: freeze_feature_def process_config_append)
  qed
qed

text \<open>
  Claim C1, as stated: a missing glyph aborts only the application of that feature,
  with no partial substitution. It fails on the sample font with the policy
  (zero: enable, cv01: enable). The second pair of the mapping of \<^verbatim>\<open>zero\<close> names the
  missing glyph \<^verbatim>\<open>O.zero\<close>; freeze reports the pair and returns, but the first pair
  has been applied (\<^verbatim>\<open>zero\<close> is now bound to the outline and metrics of
  \<^verbatim>\<open>zero.zero\<close>), and the feature \<^verbatim>\<open>cv01\<close>, enabled by the same policy, has not been
  applied (\<^verbatim>\<open>a\<close> still has its own outline).
\<close>

theorem missing_glyph_counterexample:
  "freeze sample_font [(''zero'', ''enable''), (''cv01'', ''enable'')] =
     Returned
       (sample_font\<lparr>glyphs := (glyphs sample_font)(''zero'' \<mapsto> 3),
                     metrics := (metrics sample_font)(''zero'' \<mapsto> (600, 55))\<rparr>)
       ''O or O.zero does not exist''
   \<and> glyphs sample_font ''zero'' = Some 2
   \<and> glyphs sample_font ''a'' = Some 0
   \<and> freeze sample_font [(''cv01'', ''enable'')] =
       Done (sample_font\<lparr>glyphs := (glyphs sample_font)(''a'' \<mapsto> 1),
                           metrics := (metrics sample_font)(''a'' \<mapsto> (600, 40))\<rparr>)"
  by (simp add: sample_eval sample_records sample_lookups both_exist_def replace_glyph_def
      dom_def sample_glyphs sample_metrics)

text \<open>
  Claim C1, amended. Let freeze have applied the earlier entries of the policy
  (\<open>cfg1\<close>, giving \<open>f1\<close>) and then process an enabled direct-substitution feature:
  after the lookups \<open>done_idxs\<close> of the feature (giving \<open>f2\<close>) it comes to a
  mapping whose pairs \<open>pre\<close> name existing glyphs and whose next pair names a glyph
  missing from the outline or the metrics store. Then freeze stops processing the
  feature at that pair and reports it with the message
  \<^verbatim>\<open><old> or <new> does not exist\<close>. The substitutions of the feature made before the
  pair stay applied: the font is \<open>f2\<close> with the pairs \<open>pre\<close> substituted. Apart from
  the values bound to glyph names, the font is as the features already applied left
  it.
\<close>

theorem missing_glyph_stops_feature:
  assumes earlier: "freeze_feature f mr cfg1 = Done f1"
    and feature: "feature_dict (FeatureRecord f) tag = Some i" "status \<noteq> ''ignore''"
      "status \<noteq> ''disable''" "tag \<notin> set mr"
    and lookups: "snd (FeatureRecord f1 ! i) = done_idxs @ idx # rest_idxs"
      "substitute_lookups f1 done_idxs = Done f2"
    and mapping: "idx < length (Lookup f)"
      "Lookup f ! idx = SingleSubst (pre @ (old_key, new_key) # post) # others"
    and present: "\<forall>(o_key, n_key) \<in> set pre. both_exist f o_key n_key"
    and missing: "\<not> both_exist f old_key new_key"
  shows "freeze_feature f mr (cfg1 @ [(tag, status)]) =
           Returned (substituted f2 pre) (old_key @ '' or '' @ new_key @ '' does not exist'')
         \<and> same_but_glyphs f1 (substituted f2 pre)"
proof -
  let ?msg = "old_key @ '' or '' @ new_key @ '' does not exist''"
  have layout: "same_layout f f1"
    using earlier freeze_feature_same_layout [of f mr cfg1 f1] by simp
  note dicts = same_layout_dicts [OF layout]
  have f12: "same_but_glyphs f1 f2"
    using lookups(2) substitute_lookups_same [of f1 done_idxs f2] by simp
  have exist2: "both_exist f2 = both_exist f"
    using layout f12 by (intro ext) (simp add: both_exist_def same_layout_def same_but_glyphs_def)
  have lk2: "Lookup f2 = Lookup f"
    using layout f12 by (simp add: same_layout_def same_but_glyphs_def)
  have "substitute_mapping f2 (pre @ (old_key, new_key) # post) = Returned (substituted f2 pre) ?msg"
    using present missing by (intro substitute_mapping_missing) (simp_all add: exist2)
  moreover have "idx < length (Lookup f2)"
    "Lookup f2 ! idx = SingleSubst (pre @ (old_key, new_key) # post) # others"
    using mapping by (simp_all only: lk2)
  ultimately have at_idx: "substitute_lookups f2 (idx # rest_idxs) = Returned (substituted f2 pre) ?msg"
    by simp
  have "substitute_lookups f1 (snd (FeatureRecord f1 ! i)) = Returned (substituted f2 pre) ?msg"
    unfolding lookups(1) substitute_lookups_append by (simp only: lookups(2) at_idx outcome.case)
  then have entry: "process_entry (feature_dict (FeatureRecord f)) (calt_features (FeatureRecord f))
      mr f1 (tag, status) = Returned (substituted f2 pre) ?msg"
    using feature by (simp add: process_entry_def)
  have "freeze_feature f mr (cfg1 @ [(tag, status)]) = Returned (substituted f2 pre) ?msg"
    using earlier entry
    by (simp add: freeze_feature_def process_config_append)
  moreover have "same_but_glyphs f2 (substituted f2 pre)"
    using substitute_mapping_same [of f2 pre "substituted f2 pre"] present
    by (simp add: substitute_mapping_all_exist exist2)
  ultimately show ?thesis
    using f12 by (blast intro: same_but_glyphs_trans)
qed

theorem missing_glyph_stops_feature_witness:
  "freeze sample_font [(''cv01'', ''enable''), (''zero'', ''enable'')] =
     Returned
       (sample_font\<lparr>glyphs := (glyphs sample_font)(''a'' \<mapsto> 1, ''zero'' \<mapsto> 3),
                     metrics := (metrics sample_font)(''a'' \<mapsto> (600, 40), ''zero'' \<mapsto> (600, 55))\<rparr>)
       ''O or O.zero does not exist''
   \<and> both_exist sample_font ''zero'' ''zero.zero''
   \<and> \<not> both_exist sample_font ''O'' ''O.zero''"
proof -
  let ?mr = "[''ss03'', ''ss05'', ''ss07'']"
  let ?f1 = "sample_font\<lparr>glyphs := (glyphs sample_font)(''a'' \<mapsto> 1),
                          metrics := (metrics sample_font)(''a'' \<mapsto> (600, 40))\<rparr>"
  have earlier: "freeze_feature sample_font ?mr [(''cv01'', ''enable'')] = Done ?f1"
    by (simp add: sample_eval sample_records sample_lookups both_exist_def replace_glyph_def
        dom_def sample_glyphs sample_metrics)
  have fd: "feature_dict (FeatureRecord sample_font) ''zero'' = Some 5"
    by (simp add: sample_feature_dict)
  have lookups: "snd (FeatureRecord ?f1 ! 5) = [] @ 7 # []"
    by (simp add: sample_records)
  have mapping: "7 < length (Lookup sample_font)"
    "Lookup sample_font ! 7 = SingleSubst ([(''zero'', ''zero.zero'')] @ (''O'', ''O.zero'') # []) # []"
    by (simp_all add: sample_lookups)
  have present: "\<forall>(o_key, n_key) \<in> set [(''zero'', ''zero.zero'')]. both_exist sample_font o_key n_key"
    by (simp add: both_exist_def dom_def sample_glyphs sample_metrics)
  have missing: "\<not> both_exist sample_font ''O'' ''O.zero''"
    by (simp add: both_exist_def dom_def sample_glyphs sample_metrics)
  have "freeze_feature sample_font ?mr ([(''cv01'', ''enable'')] @ [(''zero'', ''enable'')]) =
          Returned (substituted ?f1 [(''zero'', ''zero.zero'')])
            (''O'' @ '' or '' @ ''O.zero'' @ '' does not exist'')"
    using missing_glyph_stops_feature [OF earlier fd _ _ _ lookups _ mapping present missing]
    by simp
  moreover have "substituted ?f1 [(''zero'', ''zero.zero'')] =
      sample_font\<lparr>glyphs := (glyphs sample_font)(''a'' \<mapsto> 1, ''zero'' \<mapsto> 3),
                    metrics := (metrics sample_font)(''a'' \<mapsto> (600, 40), ''zero'' \<mapsto> (600, 55))\<rparr>"
    by (simp add: substituted_def replace_glyph_def sample_glyphs sample_metrics)
  ultimately show ?thesis
    using present missing by (simp add: freeze_def)
qed

section \<open>Runs of the direct substitution that reach their end\<close>













section \<open>Substituting the same pairs twice\<close>






section \<open>Policies under which freeze reaches the end\<close>








section \<open>Freezing twice\<close>






section \<open>Entries that freeze reaches\<close>



section \<open>Moving features into calt\<close>




section \<open>Disabled, ignored and unknown tags\<close>




section \<open>Width change\<close>

lemma round_half_200: "round_half (- 200) = - 100"
  by (simp add: round_half_def)

lemma shift_box_glyph:
  "x0 \<le> x1 \<Longrightarrow> y0 \<le> y1 \<Longrightarrow>
     shift_glyph d (box_glyph x0 y0 x1 y1) = box_glyph (x0 + d) y0 (x1 + d) y1"
  by (simp add: shift_glyph_def box_glyph_def translate_def)

lemma cn_freeze: "freeze cn_font [(''cv98'', ''enable'')] = Done cn_font_cv98"
proof -
  have cn: "feature_dict (FeatureRecord cn_font) = [''cv98'' \<mapsto> 0]"
    "FeatureRecord cn_font ! 0 = (''cv98'', [0])"
    "Lookup cn_font = [[SingleSubst [(''emdash'', ''emdash.cv98'')]]]"
    "glyphs cn_font ''emdash'' = Some 10" "glyphs cn_font ''emdash.cv98'' = Some 11"
    "metrics cn_font ''emdash'' = Some (600, 60)" "metrics cn_font ''emdash.cv98'' = Some (1200, 50)"
    by (simp_all add: cn_font_def feature_dict_def)
  show ?thesis
    by (simp add: cn_font_cv98_def freeze_def freeze_feature_def process_entry_def cn
        both_exist_def replace_glyph_def dom_def)
qed

lemma cn_fields:
  "glyphOrder cn_font_cv98 = [''emdash'', ''emdash.cv98'', ''uni4E00'', ''uni3000'']"
  "glyphs cn_font_cv98 ''emdash'' = Some 11" "glyphs cn_font_cv98 ''emdash.cv98'' = Some 11"
  "glyphs cn_font_cv98 ''uni4E00'' = Some 12" "glyphs cn_font_cv98 ''uni3000'' = Some 13"
  "metrics cn_font_cv98 ''emdash'' = Some (1200, 50)"
  "metrics cn_font_cv98 ''emdash.cv98'' = Some (1200, 50)"
  "metrics cn_font_cv98 ''uni4E00'' = Some (1200, 50)"
  "metrics cn_font_cv98 ''uni3000'' = Some (1200, 0)"
  "glyph_objects cn_font_cv98 11 = box_glyph 50 300 1150 360"
  "glyph_objects cn_font_cv98 12 = box_glyph 50 0 1150 800"
  "numberOfContours (glyph_objects cn_font_cv98 13) = 0"
  by (simp_all add: cn_font_cv98_def cn_font_def)

lemma box_glyph_contours: "numberOfContours (box_glyph x0 y0 x1 y1) = 1"
  by (simp add: box_glyph_def)

text \<open>
  One iteration of the loop, in the three branches at once: the metrics entry of the
  name and the glyph object it is bound to become what \<open>new_metrics\<close> and
  \<open>new_glyph\<close> say.
\<close>

lemma change_width_loop_composite:
  assumes "glyphs f name = Some a" "metrics f name = Some m"
    and "composite_match mw (glyph_objects f a) m"
  shows "change_width_loop f mw tw (name # rest) = Inl AttributeError"
  using assms by (cases m) (simp add: composite_match_def)

lemma change_width_loop_Cons:
  assumes "glyphs f name = Some a" "metrics f name = Some m"
    and "\<not> composite_match mw (glyph_objects f a) m"
  shows "change_width_loop f mw tw (name # rest) =
           change_width_loop
             (f\<lparr>glyph_objects := (glyph_objects f)(a := new_glyph mw tw (glyph_objects f a) m),
                metrics := (metrics f)(name \<mapsto> new_metrics mw tw (glyph_objects f a) m)\<rparr>)
             mw tw rest"
proof -
  obtain width lsb where m: "m = (width, lsb)" by (cases m)
  have same: "(metrics f)(name \<mapsto> (width, lsb)) = metrics f"
    using assms(2) by (simp add: m map_upd_triv)
  show ?thesis
  proof (cases "width \<noteq> mw")
    case True
    with assms same show ?thesis
      by (simp add: m new_glyph_def new_metrics_def)
  next
    case False
    with assms show ?thesis
      by (simp add: m new_glyph_def new_metrics_def composite_match_def Let_def)
  qed
qed

lemma change_width_loop_unshared:
  assumes "distinct names" "inj_on (glyphs f) (set names)"
    and "set names \<subseteq> dom (glyphs f)" "set names \<subseteq> dom (metrics f)"
    and "\<forall>n \<in> set names. \<forall>a m. glyphs f n = Some a \<longrightarrow> metrics f n = Some m \<longrightarrow>
           \<not> composite_match mw (glyph_objects f a) m"
  shows "\<exists>f'. change_width_loop f mw tw names = Inr f'
           \<and> glyphs f' = glyphs f \<and> advanceWidthMax f' = advanceWidthMax f
           \<and> (\<forall>n. n \<notin> set names \<longrightarrow> metrics f' n = metrics f n)
           \<and> (\<forall>a. Some a \<notin> glyphs f ` set names \<longrightarrow> glyph_objects f' a = glyph_objects f a)
           \<and> (\<forall>n \<in> set names. \<forall>a m. glyphs f n = Some a \<longrightarrow> metrics f n = Some m \<longrightarrow>
                 metrics f' n = Some (new_metrics mw tw (glyph_objects f a) m)
                 \<and> glyph_objects f' a = new_glyph mw tw (glyph_objects f a) m)"
  using assms
proof (induction names arbitrary: f)
  case Nil
  then show ?case by simp
next
  case (Cons name rest)
  from Cons.prems(3,4) obtain a m where am: "glyphs f name = Some a" "metrics f name = Some m"
    by auto
  define f1 where "f1 =
    f\<lparr>glyph_objects := (glyph_objects f)(a := new_glyph mw tw (glyph_objects f a) m),
      metrics := (metrics f)(name \<mapsto> new_metrics mw tw (glyph_objects f a) m)\<rparr>"
  have f1: "glyphs f1 = glyphs f" "advanceWidthMax f1 = advanceWidthMax f"
    "metrics f1 = (metrics f)(name \<mapsto> new_metrics mw tw (glyph_objects f a) m)"
    "glyph_objects f1 = (glyph_objects f)(a := new_glyph mw tw (glyph_objects f a) m)"
    by (simp_all add: f1_def)
  have "\<not> composite_match mw (glyph_objects f a) m"
    using Cons.prems(5) [rule_format, of name a m] am by simp
  then have step: "change_width_loop f mw tw (name # rest) = change_width_loop f1 mw tw rest"
    unfolding f1_def using am by (intro change_width_loop_Cons)
  from Cons.prems(1) have fresh: "name \<notin> set rest" and dist: "distinct rest" by simp_all
  have not_a: "Some a \<notin> glyphs f ` set rest"
  proof
    assume "Some a \<in> glyphs f ` set rest"
    then obtain n where n: "n \<in> set rest" "glyphs f n = Some a" by auto
    have "n = name"
    proof (rule inj_onD [OF Cons.prems(2)])
      show "glyphs f n = glyphs f name" using n(2) am(1) by simp
      show "n \<in> set (name # rest)" using n(1) by simp
      show "name \<in> set (name # rest)" by simp
    qed
    with n(1) fresh show False by simp
  qed
  have "\<exists>f'. change_width_loop f1 mw tw rest = Inr f'
           \<and> glyphs f' = glyphs f1 \<and> advanceWidthMax f' = advanceWidthMax f1
           \<and> (\<forall>n. n \<notin> set rest \<longrightarrow> metrics f' n = metrics f1 n)
           \<and> (\<forall>a. Some a \<notin> glyphs f1 ` set rest \<longrightarrow> glyph_objects f' a = glyph_objects f1 a)
           \<and> (\<forall>n \<in> set rest. \<forall>a m. glyphs f1 n = Some a \<longrightarrow> metrics f1 n = Some m \<longrightarrow>
                 metrics f' n = Some (new_metrics mw tw (glyph_objects f1 a) m)
                 \<and> glyph_objects f' a = new_glyph mw tw (glyph_objects f1 a) m)"
  proof (rule Cons.IH [OF dist])
    show "inj_on (glyphs f1) (set rest)"
      using Cons.prems(2) by (simp add: f1(1) inj_on_def)
    show "set rest \<subseteq> dom (glyphs f1)" using Cons.prems(3) by (simp add: f1(1))
    show "set rest \<subseteq> dom (metrics f1)" using Cons.prems(4) by (auto simp: f1(3))
    show "\<forall>n \<in> set rest. \<forall>b k. glyphs f1 n = Some b \<longrightarrow> metrics f1 n = Some k \<longrightarrow>
            \<not> composite_match mw (glyph_objects f1 b) k"
    proof (intro ballI allI impI)
      fix n b k assume n: "n \<in> set rest" "glyphs f1 n = Some b" "metrics f1 n = Some k"
      from n(1) fresh have ne: "n \<noteq> name" by auto
      from n(1,2) not_a have "b \<noteq> a" by (metis f1(1) image_eqI)
      with n ne Cons.prems(5) [rule_format, of n b k]
      show "\<not> composite_match mw (glyph_objects f1 b) k"
        by (simp add: f1)
    qed
  qed
  then obtain f' where f': "change_width_loop f1 mw tw rest = Inr f'"
    "glyphs f' = glyphs f" "advanceWidthMax f' = advanceWidthMax f"
    "\<And>n. n \<notin> set rest \<Longrightarrow> metrics f' n = metrics f1 n"
    "\<And>b. Some b \<notin> glyphs f ` set rest \<Longrightarrow> glyph_objects f' b = glyph_objects f1 b"
    "\<And>n b k. n \<in> set rest \<Longrightarrow> glyphs f n = Some b \<Longrightarrow> metrics f1 n = Some k \<Longrightarrow>
       metrics f' n = Some (new_metrics mw tw (glyph_objects f1 b) k)
       \<and> glyph_objects f' b = new_glyph mw tw (glyph_objects f1 b) k"
    unfolding f1(1,2) by blast
  have here: "metrics f' name = Some (new_metrics mw tw (glyph_objects f a) m)"
    "glyph_objects f' a = new_glyph mw tw (glyph_objects f a) m"
    using f'(4) [OF fresh] f'(5) [OF not_a] by (simp_all add: f1)
  have others: "metrics f' n = Some (new_metrics mw tw (glyph_objects f b) k)
       \<and> glyph_objects f' b = new_glyph mw tw (glyph_objects f b) k"
    if n: "n \<in> set rest" "glyphs f n = Some b" "metrics f n = Some k" for n b k
  proof -
    from n(1) fresh have ne: "n \<noteq> name" by auto
    have "b \<noteq> a"
      using not_a n(1,2) by (metis image_eqI)
    with f'(6) [OF n(1,2), of k] n(3) ne show ?thesis
      by (simp add: f1)
  qed
  show ?case
  proof (intro exI [of _ f'] conjI allI impI ballI)
    show "change_width_loop f mw tw (name # rest) = Inr f'" by (simp only: step f'(1))
    show "glyphs f' = glyphs f" by (rule f'(2))
    show "advanceWidthMax f' = advanceWidthMax f" by (rule f'(3))
  next
    fix n assume "n \<notin> set (name # rest)"
    then show "metrics f' n = metrics f n" using f'(4) [of n] by (simp add: f1)
  next
    fix b assume b: "Some b \<notin> glyphs f ` set (name # rest)"
    then have "b \<noteq> a" using am(1) by auto
    with b show "glyph_objects f' b = glyph_objects f b" using f'(5) [of b] by (simp add: f1)
  next
    fix n b k assume n: "n \<in> set (name # rest)" "glyphs f n = Some b" "metrics f n = Some k"
    have "metrics f' n = Some (new_metrics mw tw (glyph_objects f b) k)
        \<and> glyph_objects f' b = new_glyph mw tw (glyph_objects f b) k"
    proof (cases "n = name")
      case True
      with n am have "b = a" "k = m" by simp_all
      with True here show ?thesis by simp
    next
      case False
      with n(1) have "n \<in> set rest" by simp
      then show ?thesis using n(2,3) by (rule others)
    qed
    then show "metrics f' n = Some (new_metrics mw tw (glyph_objects f b) k)"
      and "glyph_objects f' b = new_glyph mw tw (glyph_objects f b) k"
      by simp_all
  qed
qed

text \<open>
  The width change on a font in which no two names of the glyph order are bound to
  the same glyph object, every name has an outline and a metrics entry, and no
  glyph of the matching width is composite: the
  call returns, and every glyph of the glyph order is left with the metrics and the
  outline that \<open>new_metrics\<close> and \<open>new_glyph\<close> describe. A glyph whose width is
  not \<open>match_width\<close> is untouched, a contourless glyph gets the target width and
  keeps its side bearing, and any other glyph is shifted once by
  \<open>round_half (target_width - match_width)\<close>.
\<close>

lemma change_char_width_unshared:
  assumes "distinct (glyphOrder f)" "inj_on (glyphs f) (set (glyphOrder f))"
    and "set (glyphOrder f) \<subseteq> dom (glyphs f)" "set (glyphOrder f) \<subseteq> dom (metrics f)"
    and "\<forall>n \<in> set (glyphOrder f). \<forall>a m. glyphs f n = Some a \<longrightarrow> metrics f n = Some m \<longrightarrow>
           \<not> composite_match mw (glyph_objects f a) m"
  shows "\<exists>f'. change_char_width f mw tw = Inr f'
           \<and> advanceWidthMax f' = tw \<and> glyphs f' = glyphs f
           \<and> (\<forall>n \<in> set (glyphOrder f). \<forall>a m. glyphs f n = Some a \<longrightarrow> metrics f n = Some m \<longrightarrow>
                 metrics f' n = Some (new_metrics mw tw (glyph_objects f a) m)
                 \<and> glyph_objects f' a = new_glyph mw tw (glyph_objects f a) m)"
proof -
  let ?f = "f\<lparr>advanceWidthMax := tw\<rparr>"
  have "\<exists>f'. change_width_loop ?f mw tw (glyphOrder f) = Inr f'
           \<and> glyphs f' = glyphs ?f \<and> advanceWidthMax f' = advanceWidthMax ?f
           \<and> (\<forall>n. n \<notin> set (glyphOrder f) \<longrightarrow> metrics f' n = metrics ?f n)
           \<and> (\<forall>a. Some a \<notin> glyphs ?f ` set (glyphOrder f) \<longrightarrow> glyph_objects f' a = glyph_objects ?f a)
           \<and> (\<forall>n \<in> set (glyphOrder f). \<forall>a m. glyphs ?f n = Some a \<longrightarrow> metrics ?f n = Some m \<longrightarrow>
                 metrics f' n = Some (new_metrics mw tw (glyph_objects ?f a) m)
                 \<and> glyph_objects f' a = new_glyph mw tw (glyph_objects ?f a) m)"
    using assms by (intro change_width_loop_unshared) simp_all
  then obtain f' where "change_width_loop ?f mw tw (glyphOrder f) = Inr f'"
    "glyphs f' = glyphs f" "advanceWidthMax f' = tw"
    "\<forall>n \<in> set (glyphOrder f). \<forall>a m. glyphs f n = Some a \<longrightarrow> metrics f n = Some m \<longrightarrow>
       metrics f' n = Some (new_metrics mw tw (glyph_objects f a) m)
       \<and> glyph_objects f' a = new_glyph mw tw (glyph_objects f a) m"
    by auto
  then show ?thesis
    unfolding change_char_width_def by (intro exI [of _ f'] conjI)
qed

lemma calcIntBounds_Min_Max:
  "ps \<noteq> [] \<Longrightarrow>
     calcIntBounds ps =
       (Min (fst ` set ps), Min (snd ` set ps), Max (fst ` set ps), Max (snd ` set ps))"
proof (cases ps)
  case Nil
  then show "ps \<noteq> [] \<Longrightarrow> ?thesis" by simp
next
  case (Cons p qs)
  obtain x y where p: "p = (x, y)" by (cases p)
  have "fold min (map fst qs) x = Min (set (x # map fst qs))"
    "fold min (map snd qs) y = Min (set (y # map snd qs))"
    "fold max (map fst qs) x = Max (set (x # map fst qs))"
    "fold max (map snd qs) y = Max (set (y # map snd qs))"
    by (simp_all only: Min.set_eq_fold Max.set_eq_fold)
  then show ?thesis
    by (simp add: Cons p)
qed

text \<open>
  A shifted glyph has every point moved by \<open>(delta, 0)\<close>, the same number of
  contours, and the bounding box of the moved points.
\<close>

lemma shift_glyph_outline:
  "coordinates (shift_glyph delta g) = map (\<lambda>(x, y). (x + delta, y)) (coordinates g)"
  "numberOfContours (shift_glyph delta g) = numberOfContours g"
  by (simp_all add: shift_glyph_def translate_def Let_def split: prod.splits)

lemma shift_glyph_bounds:
  assumes "coordinates g \<noteq> []"
  shows "xMin (shift_glyph delta g) = Min (fst ` set (coordinates (shift_glyph delta g)))"
    and "yMin (shift_glyph delta g) = Min (snd ` set (coordinates (shift_glyph delta g)))"
    and "xMax (shift_glyph delta g) = Max (fst ` set (coordinates (shift_glyph delta g)))"
    and "yMax (shift_glyph delta g) = Max (snd ` set (coordinates (shift_glyph delta g)))"
proof -
  have "translate (delta, 0) (coordinates g) \<noteq> []"
    using assms by (simp add: translate_def)
  from calcIntBounds_Min_Max [OF this]
  show "xMin (shift_glyph delta g) = Min (fst ` set (coordinates (shift_glyph delta g)))"
    and "yMin (shift_glyph delta g) = Min (snd ` set (coordinates (shift_glyph delta g)))"
    and "xMax (shift_glyph delta g) = Max (fst ` set (coordinates (shift_glyph delta g)))"
    and "yMax (shift_glyph delta g) = Max (snd ` set (coordinates (shift_glyph delta g)))"
    by (simp_all add: shift_glyph_def Let_def)
qed

text \<open>
  Claim C6. Every glyph whose advance width equals \<open>match_width\<close> gets the target
  width; a contourless one keeps its side bearing, any other one has its outline
  translated by \<open>(round((target_width - match_width) / 2), 0)\<close>, its bounding box
  recomputed and its left side bearing increased by that amount. This holds when
  every glyph name is bound to a glyph object of its own
  (\<open>change_char_width_unshared\<close>). It fails on the font that freeze leaves once
  an enabled direct-substitution feature has mapped a glyph to a full-width
  alternate: freeze binds both names to one glyph object, and the loop of
  \<^verbatim>\<open>change_char_width\<close> translates that object once for each name. On the
  full-width sample font after freeze with cv98 enabled, narrowed from 1200 to 1000,
  the outline of \<^verbatim>\<open>emdash.cv98\<close> (from 50 to 1150, left side bearing 50) ends
  translated by \<open>(-200, 0)\<close>, from -150 to 950, with left side bearing -50, where
  the claim gives a translation by \<open>(-100, 0)\<close>. The ideograph \<^verbatim>\<open>uni4E00\<close>, bound to
  an object of its own, ends translated by \<open>(-100, 0)\<close> with left side bearing -50,
  and the contourless \<^verbatim>\<open>uni3000\<close> keeps its side bearing.
\<close>

theorem narrow_shared_glyph:
  "freeze cn_font [(''cv98'', ''enable'')] = Done cn_font_cv98
   \<and> glyphs cn_font_cv98 ''emdash.cv98'' = Some 11
   \<and> glyph_objects cn_font_cv98 11 = box_glyph 50 300 1150 360
   \<and> metrics cn_font_cv98 ''emdash.cv98'' = Some (1200, 50)
   \<and> (case change_char_width cn_font_cv98 1200 1000 of
         Inl e \<Rightarrow> False
       | Inr f' \<Rightarrow>
           glyph_objects f' 11 = box_glyph (- 150) 300 950 360
           \<and> metrics f' ''emdash.cv98'' = Some (1000, - 50)
           \<and> glyph_objects f' 12 = box_glyph (- 50) 0 1050 800
           \<and> metrics f' ''uni4E00'' = Some (1000, - 50)
           \<and> metrics f' ''uni3000'' = Some (1000, 0))"
  by (simp add: cn_freeze change_char_width_def cn_fields round_half_200 shift_box_glyph
      box_glyph_contours Let_def)


end
